theory Spec2Isabelle
  imports Complex_Main "HOL-Library.Sublist"
begin

section \<open>Go strings and the library functions used by the chunker\<close>

text \<open>
  A Go string is modelled as the sequence of runes (code points) that ranging over it
  yields; an invalid UTF-8 byte is the rune U+FFFD, as the decoder of the library has it.
  String literals of the source are written with \<open>str\<close>.
\<close>

type_synonym rune = nat
type_synonym gostring = "rune list"

definition str :: "string \<Rightarrow> gostring" where
  "str s = map of_char s"

text \<open>
  \<open>unicode.IsSpace\<close>: in Latin-1 the characters tab, line feed, vertical tab, form feed,
  carriage return, space, U+0085 and U+00A0; beyond Latin-1 the code points with the
  property White_Space.
\<close>

definition isSpace :: "rune \<Rightarrow> bool" where
  "isSpace r =
     (if r \<le> 255 then r \<in> {9, 10, 11, 12, 13, 32, 133, 160}
      else r = 5760 \<or> (8192 \<le> r \<and> r \<le> 8202) \<or> r \<in> {8232, 8233, 8239, 8287, 12288})"

text \<open>
  \<open>strings.Fields\<close> (standard library, modelled from its documentation): the maximal runs
  of non-space runes, in order; the result is empty when the string holds only white space.
  \<open>fields_from cur s\<close> scans \<open>s\<close> with the field read so far in \<open>cur\<close>.
\<close>

fun fields_from :: "gostring \<Rightarrow> gostring \<Rightarrow> gostring list" where
  "fields_from cur [] = (if cur = [] then [] else [cur])"
| "fields_from cur (r # rs) =
     (if isSpace r then (if cur = [] then fields_from [] rs else cur # fields_from [] rs)
      else fields_from (cur @ [r]) rs)"

definition Fields :: "gostring \<Rightarrow> gostring list" where
  "Fields s = fields_from [] s"

text \<open>\<open>strings.Join\<close>: the elements with \<open>sep\<close> between each two of them.\<close>

fun Join :: "gostring list \<Rightarrow> gostring \<Rightarrow> gostring" where
  "Join [] sep = []"
| "Join [w] sep = w"
| "Join (w # ws) sep = w @ sep @ Join ws sep"

section \<open>Machine integers and slices\<close>

text \<open>
  Go's \<open>int\<close> is a 64-bit two's-complement integer here; \<open>+\<close> wraps around silently.
\<close>

definition MaxInt :: int where
  "MaxInt = 2 ^ 63 - 1"

definition wrap64 :: "int \<Rightarrow> int" where
  "wrap64 x = (x + 2 ^ 63) mod 2 ^ 64 - 2 ^ 63"

definition add64 :: "int \<Rightarrow> int \<Rightarrow> int" where
  "add64 a b = wrap64 (a + b)"

datatype panic = SliceBoundsOutOfRange

text \<open>
  The slice expression \<open>xs[lo:hi]\<close>: a run-time panic unless \<open>0 \<le> lo \<le> hi \<le> len\<close>
  (the slices of this program have no spare capacity that a bound could reach).
\<close>

definition slice :: "'a list \<Rightarrow> int \<Rightarrow> int \<Rightarrow> panic + 'a list" where
  "slice xs lo hi =
     (if 0 \<le> lo \<and> lo \<le> hi \<and> hi \<le> int (length xs)
      then Inr (take (nat (hi - lo)) (drop (nat lo) xs))
      else Inl SliceBoundsOutOfRange)"

section \<open>ChunkText\<close>

text \<open>
  The loop of \<open>ChunkText\<close>, from the state \<open>(i, chunks)\<close>. The result is \<open>None\<close> when the
  loop runs forever, \<open>Some (Inl p)\<close> when it panics and \<open>Some (Inr chunks)\<close> when it
  returns.
  \<^verbatim>\<open>
  for i := 0; i < len(words); i += stride {
      end := i + size
      if end > len(words) { end = len(words) }
      chunks = append(chunks, strings.Join(words[i:end], " "))
      if end == len(words) { break }
  }
  return chunks
  \<close>
\<close>

partial_function (option) chunk_loop ::
  "gostring list \<Rightarrow> int \<Rightarrow> int \<Rightarrow> int \<Rightarrow> gostring list \<Rightarrow> (panic + gostring list) option"
where
  "chunk_loop words sz stride i chunks =
     (if i < int (length words) then
        (let end0 = add64 i sz;
             end1 = (if end0 > int (length words) then int (length words) else end0)
         in case slice words i end1 of
              Inl p \<Rightarrow> Some (Inl p)
            | Inr ws \<Rightarrow>
                (let chunks1 = chunks @ [Join ws (str '' '')]
                 in if end1 = int (length words) then Some (Inr chunks1)
                    else chunk_loop words sz stride (add64 i stride) chunks1))
      else Some (Inr chunks))"

declare chunk_loop.simps [code]

definition ChunkText :: "gostring \<Rightarrow> int \<Rightarrow> int \<Rightarrow> (panic + gostring list) option" where
  "ChunkText text sz stride =
     (let words = Fields text
      in if length words = 0 then Some (Inr [])
         else chunk_loop words sz stride 0 [])"

section \<open>Reference notions for the chunker\<close>

text \<open>A word is a non-empty string without white space.\<close>

definition is_word :: "gostring \<Rightarrow> bool" where
  "is_word w = (w \<noteq> [] \<and> (\<forall>r\<in>set w. \<not> isSpace r))"

text \<open>The window of \<open>S\<close> words that starts at word \<open>k * T\<close>, cut at the end of the list.\<close>

definition window :: "gostring list \<Rightarrow> nat \<Rightarrow> nat \<Rightarrow> nat \<Rightarrow> gostring list" where
  "window words S T k = take S (drop (k * T) words)"

text \<open>The ceiling of a quotient, on natural numbers and on integers.\<close>

definition cdiv :: "nat \<Rightarrow> nat \<Rightarrow> nat" where
  "cdiv a b = (a + b - 1) div b"

definition ceil_div :: "int \<Rightarrow> int \<Rightarrow> int" where
  "ceil_div a b = - ((- a) div b)"

text \<open>
  The number of chunks the loop emits for \<open>N\<close> words: it leaves either by its condition
  (\<open>i \<ge> N\<close>, after \<open>ceil (N / T)\<close> windows) or by its \<open>break\<close> (the first window that
  reaches the end), whichever comes first.
\<close>

definition chunk_count :: "nat \<Rightarrow> nat \<Rightarrow> nat \<Rightarrow> nat" where
  "chunk_count N S T = min (cdiv N T) (cdiv (N - S) T + 1)"

text \<open>
  The number of chunks as the specification words it: \<open>ceil (max (0, N - S) / T) + 1\<close>
  for \<open>N > 0\<close>, and zero for \<open>N = 0\<close>.
\<close>

definition spec_chunk_count :: "int \<Rightarrow> int \<Rightarrow> int \<Rightarrow> int" where
  "spec_chunk_count N S T = (if N = 0 then 0 else ceil_div (max 0 (N - S)) T + 1)"

section \<open>The HTTP services, as the handlers see them\<close>

text \<open>
  The embedding provider and the vector store are outside the program. A request is its
  method, its URL and the value that \<open>json.Marshal\<close> encodes as its body; the outcome of a
  call is a transport error (\<open>Inl\<close>, the \<open>err\<close> of \<open>http.Post\<close>) or a response with its
  status code and the bytes of its body.
\<close>

record Config =
  OllamaURL :: gostring
  ChromaURL :: gostring
  ChromaAPIBase :: gostring
  DefaultModel :: gostring
  Collection :: gostring

record metadata =
  source :: gostring
  filename :: gostring
  chunk_num :: int

datatype 'f payload =
    NoBody
  | EmbeddingRequest (Model: gostring) (Prompt: gostring)
  | CreateRequest (Name: gostring)
  | ChromaAddRequest (Documents: "gostring list") (Metadatas: "metadata list")
      (Ids: "gostring list") (Embeddings: "'f list list")
  | ChromaQueryRequest (QueryEmbeddings: "'f list list") (NResults: int)

datatype 'f request = Request (Method: gostring) (URL: gostring) (Payload: "'f payload")

datatype response = Response (StatusCode: int) (Body: gostring)

type_synonym outcome = "gostring + response"

record 'f ChromaQueryResponse =
  qIds :: "gostring list list"
  qDocuments :: "gostring list list"
  qMetadatas :: "metadata list list"
  qDistances :: "'f list list"

text \<open>
  The error values that the source builds with \<open>fmt.Errorf\<close>, one constructor for each
  format string, with the arguments of the format.
\<close>

datatype err =
    HttpPostError gostring            \<comment> \<open>\<open>http post error: %w\<close>\<close>
  | OllamaStatus int gostring         \<comment> \<open>\<open>ollama returned status %d: %s\<close>\<close>
  | DecodeResponse gostring           \<comment> \<open>\<open>failed to decode response: %w\<close>\<close>
  | DecodeGetCollection gostring      \<comment> \<open>\<open>failed to decode get collection response: %w\<close>\<close>
  | PostFailed gostring gostring      \<comment> \<open>\<open>failed to POST to %s: %w\<close>\<close>
  | CreateStatus gostring int gostring \<comment> \<open>\<open>create collection at %s returned status %d: %s\<close>\<close>
  | DecodeCreateCollection gostring   \<comment> \<open>\<open>failed to decode create collection response: %w\<close>\<close>
  | EmptyCollectionID                 \<comment> \<open>\<open>received empty collection ID from ChromaDB\<close>\<close>
  | GetOrCreateFailed err             \<comment> \<open>\<open>getOrCreateCollection failed: %w\<close>\<close>
  | AddPostFailed gostring gostring   \<comment> \<open>\<open>http post to %s failed: %w\<close>\<close>
  | AddStatus int gostring            \<comment> \<open>\<open>chroma add returned status %d: %s\<close>\<close>
  | QueryStatus int gostring          \<comment> \<open>\<open>chroma query returned status %d: %s\<close>\<close>
  | Upstream gostring                 \<comment> \<open>an error of a library call, returned as it is\<close>
  | ReadPDFFailed gostring            \<comment> \<open>\<open>failed to read PDF: %v\<close>\<close>

text \<open>The lines written with \<open>log.Printf\<close>, with the values they are formatted from.\<close>

datatype log_entry =
    LogResetting gostring
  | LogResetSuccessful
  | LogSearching gostring
  | LogExtracted gostring
  | LogSplit nat int int
  | LogProcessing int nat gostring
  | WarnEmbedding int err
  | WarnAdd int err
  | LogStored int nat
  | LogCompleted nat

text \<open>
  What the program takes from outside: the services (\<open>http_do\<close>, which answers a request
  in a state of the world and moves the world on), the generator of \<open>uuid.New\<close>, the PDF
  library behind \<open>ReadPDF\<close>, the check of \<open>http.NewRequest\<close>, and the decoders of
  \<open>encoding/json\<close> for the three response shapes (\<open>Inl\<close> is the decoder's error).
  \<open>json.NewDecoder(r).Decode\<close> and \<open>json.Unmarshal\<close> differ on trailing data, so the
  identifier has one decoder for each.
\<close>

record ('w, 'f) env =
  http_do :: "'f request \<Rightarrow> 'w \<Rightarrow> outcome \<times> 'w"
  uuid_New :: "'w \<Rightarrow> gostring \<times> 'w"
  pdf_plain_text :: "gostring \<Rightarrow> 'w \<Rightarrow> gostring + gostring"
  new_request_error :: "gostring \<Rightarrow> gostring \<Rightarrow> gostring option"
  decode_embedding :: "gostring \<Rightarrow> gostring + 'f list"
  decode_id :: "gostring \<Rightarrow> gostring + gostring"
  unmarshal_id :: "gostring \<Rightarrow> gostring + gostring"
  decode_query :: "gostring \<Rightarrow> gostring + 'f ChromaQueryResponse"

text \<open>
  The state a handler runs in: the world, the exchanges made so far (each request with
  its outcome, in order) and the log.
\<close>

record ('w, 'f) state =
  world :: 'w
  trace :: "('f request \<times> outcome) list"
  logs :: "log_entry list"

definition do_request ::
  "('w, 'f) env \<Rightarrow> 'f request \<Rightarrow> ('w, 'f) state \<Rightarrow> outcome \<times> ('w, 'f) state" where
  "do_request E req s =
     (case http_do E req (world s) of
        (r, w) \<Rightarrow> (r, s\<lparr>world := w, trace := trace s @ [(req, r)]\<rparr>))"

definition http_Get ::
  "('w, 'f) env \<Rightarrow> gostring \<Rightarrow> ('w, 'f) state \<Rightarrow> outcome \<times> ('w, 'f) state" where
  "http_Get E url s = do_request E (Request (str ''GET'') url NoBody) s"

definition http_Post ::
  "('w, 'f) env \<Rightarrow> gostring \<Rightarrow> 'f payload \<Rightarrow> ('w, 'f) state \<Rightarrow> outcome \<times> ('w, 'f) state" where
  "http_Post E url body s = do_request E (Request (str ''POST'') url body) s"

definition log_Printf :: "log_entry \<Rightarrow> ('w, 'f) state \<Rightarrow> ('w, 'f) state" where
  "log_Printf l s = s\<lparr>logs := logs s @ [l]\<rparr>"

definition StatusOK :: int where "StatusOK = 200"
definition StatusCreated :: int where "StatusCreated = 201"
definition StatusBadRequest :: int where "StatusBadRequest = 400"
definition StatusNotFound :: int where "StatusNotFound = 404"
definition StatusMethodNotAllowed :: int where "StatusMethodNotAllowed = 405"
definition StatusInternalServerError :: int where "StatusInternalServerError = 500"

section \<open>The helpers of the handler\<close>

definition getEmbedding ::
  "('w, 'f) env \<Rightarrow> Config \<Rightarrow> gostring \<Rightarrow> ('w, 'f) state \<Rightarrow> (err + 'f list) \<times> ('w, 'f) state"
where
  "getEmbedding E cfg text s =
     (case http_Post E (OllamaURL cfg @ str ''/api/embeddings'')
             (EmbeddingRequest (DefaultModel cfg) text) s of
        (Inl e, s1) \<Rightarrow> (Inl (HttpPostError e), s1)
      | (Inr resp, s1) \<Rightarrow>
          if StatusCode resp \<noteq> StatusOK
          then (Inl (OllamaStatus (StatusCode resp) (Body resp)), s1)
          else (case decode_embedding E (Body resp) of
                  Inl e \<Rightarrow> (Inl (DecodeResponse e), s1)
                | Inr v \<Rightarrow> (Inr v, s1)))"

text \<open>The second half of \<open>getOrCreateCollection\<close>, from the comment \<open>2. Create\<close> on.\<close>

definition createCollection ::
  "('w, 'f) env \<Rightarrow> Config \<Rightarrow> gostring \<Rightarrow> ('w, 'f) state \<Rightarrow> (err + gostring) \<times> ('w, 'f) state"
where
  "createCollection E cfg name s =
     (let createURL = ChromaURL cfg @ ChromaAPIBase cfg
      in case http_Post E createURL (CreateRequest name) s of
           (Inl e, s1) \<Rightarrow> (Inl (PostFailed createURL e), s1)
         | (Inr resp, s1) \<Rightarrow>
             if StatusCode resp \<noteq> StatusOK \<and> StatusCode resp \<noteq> StatusCreated
             then (Inl (CreateStatus createURL (StatusCode resp) (Body resp)), s1)
             else (case unmarshal_id E (Body resp) of
                     Inl e \<Rightarrow> (Inl (DecodeCreateCollection e), s1)
                   | Inr ident \<Rightarrow>
                       if ident = [] then (Inl EmptyCollectionID, s1) else (Inr ident, s1)))"

definition getOrCreateCollection ::
  "('w, 'f) env \<Rightarrow> Config \<Rightarrow> gostring \<Rightarrow> ('w, 'f) state \<Rightarrow> (err + gostring) \<times> ('w, 'f) state"
where
  "getOrCreateCollection E cfg name s =
     (let getURL = ChromaURL cfg @ ChromaAPIBase cfg @ str ''/'' @ name
      in case http_Get E getURL s of
           (Inl e, s1) \<Rightarrow> createCollection E cfg name s1
         | (Inr resp, s1) \<Rightarrow>
             if StatusCode resp = StatusOK
             then (case decode_id E (Body resp) of
                     Inl e \<Rightarrow> (Inl (DecodeGetCollection e), s1)
                   | Inr ident \<Rightarrow> (Inr ident, s1))
             else createCollection E cfg name s1)"


definition queryChroma ::
  "('w, 'f) env \<Rightarrow> Config \<Rightarrow> 'f list \<Rightarrow> ('w, 'f) state
     \<Rightarrow> (err + 'f ChromaQueryResponse) \<times> ('w, 'f) state"
where
  "queryChroma E cfg embedding s =
     (case getOrCreateCollection E cfg (Collection cfg) s of
        (Inl e, s1) \<Rightarrow> (Inl e, s1)
      | (Inr colID, s1) \<Rightarrow>
          (let url = ChromaURL cfg @ ChromaAPIBase cfg @ str ''/'' @ colID @ str ''/query''
           in case http_Post E url (ChromaQueryRequest [embedding] 5) s1 of
                (Inl e, s2) \<Rightarrow> (Inl (Upstream e), s2)
              | (Inr resp, s2) \<Rightarrow>
                  if StatusCode resp \<ge> 300
                  then (Inl (QueryStatus (StatusCode resp) (Body resp)), s2)
                  else (case decode_query E (Body resp) of
                          Inl e \<Rightarrow> (Inl (Upstream e), s2)
                        | Inr res \<Rightarrow> (Inr res, s2))))"





section \<open>The handlers\<close>

text \<open>
  What a handler writes to its \<open>http.ResponseWriter\<close>: the status code and the content,
  which is the message of \<open>http.Error\<close> or the encoded JSON value.
\<close>

datatype 'f content =
    MethodNotAllowed                           \<comment> \<open>\<open>Method not allowed\<close>\<close>
  | MissingQuery                               \<comment> \<open>\<open>Missing query parameter 'q'\<close>\<close>
  | FailedToCreateRequest gostring             \<comment> \<open>\<open>failed to create request: %v\<close>\<close>
  | FailedToDeleteCollection gostring          \<comment> \<open>\<open>failed to delete collection: %v\<close>\<close>
  | ChromaResetError gostring                  \<comment> \<open>\<open>chroma reset error: %s\<close>\<close>
  | FailedToGetEmbedding err                   \<comment> \<open>\<open>failed to get embedding: %v\<close>\<close>
  | FailedToQueryChroma err                    \<comment> \<open>\<open>failed to query chroma: %v\<close>\<close>
  | ResetSuccessful gostring                   \<comment> \<open>status \<open>reset successful\<close> and the collection\<close>
  | SearchResults "'f ChromaQueryResponse"

datatype 'f reply = Reply (reply_code: int) (reply_body: "'f content")

definition HandleReset ::
  "('w, 'f) env \<Rightarrow> Config \<Rightarrow> gostring \<Rightarrow> ('w, 'f) state \<Rightarrow> 'f reply \<times> ('w, 'f) state" where
  "HandleReset E cfg method s =
     (if method \<noteq> str ''POST'' \<and> method \<noteq> str ''GET''
      then (Reply StatusMethodNotAllowed MethodNotAllowed, s)
      else
        (let s1 = log_Printf (LogResetting (Collection cfg)) s;
             url = ChromaURL cfg @ ChromaAPIBase cfg @ str ''/'' @ Collection cfg
         in case new_request_error E (str ''DELETE'') url of
              Some e \<Rightarrow> (Reply StatusInternalServerError (FailedToCreateRequest e), s1)
            | None \<Rightarrow>
                (case do_request E (Request (str ''DELETE'') url NoBody) s1 of
                   (Inl e, s2) \<Rightarrow>
                     (Reply StatusInternalServerError (FailedToDeleteCollection e), s2)
                 | (Inr resp, s2) \<Rightarrow>
                     if StatusCode resp \<noteq> StatusOK \<and> StatusCode resp \<noteq> StatusNotFound
                     then (Reply StatusInternalServerError (ChromaResetError (Body resp)), s2)
                     else (Reply StatusOK (ResetSuccessful (Collection cfg)),
                           log_Printf LogResetSuccessful s2))))"

definition HandleSearch ::
  "('w, 'f) env \<Rightarrow> Config \<Rightarrow> gostring \<Rightarrow> gostring \<Rightarrow> ('w, 'f) state
     \<Rightarrow> 'f reply \<times> ('w, 'f) state" where
  "HandleSearch E cfg method query s =
     (if method \<noteq> str ''GET'' then (Reply StatusMethodNotAllowed MethodNotAllowed, s)
      else if query = [] then (Reply StatusBadRequest MissingQuery, s)
      else
        (case getEmbedding E cfg query (log_Printf (LogSearching query) s) of
           (Inl e, s1) \<Rightarrow> (Reply StatusInternalServerError (FailedToGetEmbedding e), s1)
         | (Inr embedding, s1) \<Rightarrow>
             (case queryChroma E cfg embedding s1 of
                (Inl e, s2) \<Rightarrow> (Reply StatusInternalServerError (FailedToQueryChroma e), s2)
              | (Inr results, s2) \<Rightarrow> (Reply StatusOK (SearchResults results), s2))))"

section \<open>What a run leaves behind\<close>

text \<open>The exchanges made between two states of a run.\<close>

definition since :: "('w, 'f) state \<Rightarrow> ('w, 'f) state \<Rightarrow> ('f request \<times> outcome) list" where
  "since s s' = drop (length (trace s)) (trace s')"




text \<open>
  An embedding call fails when the transport fails, the status is not 200 or the body
  does not decode.
\<close>

fun embedding_failed :: "('w, 'f) env \<Rightarrow> 'f request \<times> outcome \<Rightarrow> bool" where
  "embedding_failed E (Request m u (EmbeddingRequest model p), Inl e) = True"
| "embedding_failed E (Request m u (EmbeddingRequest model p), Inr resp) =
     (StatusCode resp \<noteq> StatusOK \<or> isl (decode_embedding E (Body resp)))"
| "embedding_failed E (req, r) = False"





text \<open>
  A query of the store fails when the transport fails, the status is 300 or more, or the
  body does not decode.
\<close>

fun query_failed :: "('w, 'f) env \<Rightarrow> 'f request \<times> outcome \<Rightarrow> bool" where
  "query_failed E (Request m u (ChromaQueryRequest embs k), Inl e) = True"
| "query_failed E (Request m u (ChromaQueryRequest embs k), Inr resp) =
     (StatusCode resp \<ge> 300 \<or> isl (decode_query E (Body resp)))"
| "query_failed E (req, r) = False"







section \<open>A test double of the two services\<close>

text \<open>
  The configuration of \<open>NewHandler\<close> when no environment variable is set.
\<close>

definition default_config :: Config where
  "default_config =
     \<lparr>OllamaURL = str ''http://localhost:11434'',
      ChromaURL = str ''http://localhost:8000'',
      ChromaAPIBase = str ''/api/v2/tenants/default_tenant/databases/default_database/collections'',
      DefaultModel = str ''embeddinggemma:300m'',
      Collection = str ''documents''\<rparr>"

text \<open>
  A small world to run the handlers in. The vector store keeps the records it is sent. It
  knows the collection \<open>documents\<close>, it refuses every request about the collection
  \<open>locked\<close>, it answers the creation of \<open>void\<close> with an empty identifier, and its query
  endpoint is out of order. The embedding provider answers every prompt but \<open>b\<close>, for
  which it reports a server error; the embedding of a prompt is the list of its code
  points.
\<close>

record demo_world =
  store :: "(gostring \<times> metadata \<times> gostring \<times> nat list) list"
  issued :: nat

definition demo_url :: "string \<Rightarrow> gostring" where
  "demo_url name = ChromaURL default_config @ ChromaAPIBase default_config @ str ''/'' @ str name"

definition demo_http :: "nat request \<Rightarrow> demo_world \<Rightarrow> outcome \<times> demo_world" where
  "demo_http req w =
     (case Payload req of
        EmbeddingRequest model p \<Rightarrow>
          if p = str ''b'' then (Inr (Response 500 (str ''out of memory'')), w)
          else (Inr (Response 200 p), w)
      | NoBody \<Rightarrow>
          if URL req = demo_url ''documents''
          then (if Method req = str ''DELETE'' then (Inr (Response 200 []), w\<lparr>store := []\<rparr>)
                else (Inr (Response 200 (str ''c0ffee'')), w))
          else if URL req = demo_url ''locked'' then (Inr (Response 403 (str ''forbidden'')), w)
          else (Inr (Response 404 (str ''not found'')), w)
      | CreateRequest name \<Rightarrow>
          if name = str ''locked'' then (Inr (Response 403 (str ''forbidden'')), w)
          else if name = str ''void'' then (Inr (Response 200 []), w)
          else (Inr (Response 201 (str ''c0ffee'')), w)
      | ChromaAddRequest docs metas ids embs \<Rightarrow>
          (Inr (Response 201 []), w\<lparr>store := store w @ zip docs (zip metas (zip ids embs))\<rparr>)
      | ChromaQueryRequest embs k \<Rightarrow> (Inr (Response 503 (str ''unavailable'')), w))"

definition demo_env :: "(demo_world, nat) env" where
  "demo_env =
     \<lparr>http_do = demo_http,
      uuid_New = (\<lambda>w. (str ''id-'' @ [48 + issued w], w\<lparr>issued := issued w + 1\<rparr>)),
      pdf_plain_text =
        (\<lambda>path w. if path = str ''abc.pdf'' then Inr (str ''a b c'') else Inl (str ''not a PDF'')),
      new_request_error = (\<lambda>m u. None),
      decode_embedding = (\<lambda>b. Inr b),
      decode_id = (\<lambda>b. Inr b),
      unmarshal_id = (\<lambda>b. Inr b),
      decode_query = (\<lambda>b. Inl (str ''unexpected end of JSON input''))\<rparr>"

definition demo_start :: "(demo_world, nat) state" where
  "demo_start = \<lparr>world = \<lparr>store = [], issued = 0\<rparr>, trace = [], logs = []\<rparr>"

section \<open>Properties of the library functions\<close>

lemma fields_from_words:
  "\<forall>r\<in>set cur. \<not> isSpace r \<Longrightarrow> w \<in> set (fields_from cur s) \<Longrightarrow> is_word w"
proof (induction s arbitrary: cur)
  case Nil
  then show ?case by (auto simp: is_word_def split: if_splits)
next
  case (Cons r rs)
  show ?case
  proof (cases "isSpace r")
    case True
    with Cons.prems have "w = cur \<and> cur \<noteq> [] \<or> w \<in> set (fields_from [] rs)"
      by (auto split: if_splits)
    then show ?thesis using Cons.IH[of "[]"] Cons.prems(1) by (auto simp: is_word_def)
  next
    case False
    with Cons.prems have "w \<in> set (fields_from (cur @ [r]) rs)" by simp
    moreover have "\<forall>x\<in>set (cur @ [r]). \<not> isSpace x" using False Cons.prems(1) by simp
    ultimately show ?thesis using Cons.IH[of "cur @ [r]"] by blast
  qed
qed

lemma Fields_words: "w \<in> set (Fields s) \<Longrightarrow> is_word w"
  unfolding Fields_def by (rule fields_from_words[of "[]"]) simp_all

lemma fields_from_length:
  "2 * length (fields_from cur s) \<le> length s + (if cur = [] then 1 else 2)"
proof (induction s arbitrary: cur)
  case Nil
  then show ?case by simp
next
  case (Cons r rs)
  show ?case using Cons[of "[]"] Cons[of "cur @ [r]"] by (auto split: if_splits)
qed

lemma Fields_length: "2 * length (Fields s) \<le> length s + 1"
  using fields_from_length[of "[]" s] by (simp add: Fields_def)

lemma fields_from_word_app:
  "\<forall>r\<in>set w. \<not> isSpace r \<Longrightarrow> fields_from cur (w @ s) = fields_from (cur @ w) s"
  by (induction w arbitrary: cur) auto

lemma isSpace_32: "isSpace 32"
  by (simp add: isSpace_def)

lemma str_space: "str '' '' = [32]"
  by (simp add: str_def)

lemma Fields_Join: "\<forall>w\<in>set ws. is_word w \<Longrightarrow> Fields (Join ws (str '' '')) = ws"
proof (induction ws)
  case Nil
  then show ?case by (simp add: Fields_def)
next
  case (Cons w ws)
  then have w: "w \<noteq> []" "\<forall>r\<in>set w. \<not> isSpace r" by (simp_all add: is_word_def)
  show ?case
  proof (cases ws)
    case one: Nil
    then show ?thesis using w fields_from_word_app[of w "[]" "[]"] by (simp add: Fields_def)
  next
    case more: (Cons v vs)
    have "Fields (Join (w # ws) (str '' '')) = fields_from [] (w @ 32 # Join ws (str '' ''))"
      using more by (simp add: Fields_def str_space)
    also have "\<dots> = fields_from w (32 # Join ws (str '' ''))"
      using w fields_from_word_app[of w "[]"] by simp
    also have "\<dots> = w # Fields (Join ws (str '' ''))"
      using w by (simp add: isSpace_32 Fields_def)
    finally show ?thesis using Cons.IH Cons.prems by simp
  qed
qed

section \<open>The loop of ChunkText in closed form\<close>

lemma wrap64_id: "- (2 ^ 63) \<le> x \<Longrightarrow> x < 2 ^ 63 \<Longrightarrow> wrap64 x = x"
  unfolding wrap64_def by (simp add: mod_pos_pos_trivial)

lemma cdiv_gt: "0 < T \<Longrightarrow> (j < cdiv m T) = (j * T < m)"
proof -
  assume T: "0 < T"
  have "(j < cdiv m T) = (Suc j \<le> (m + T - 1) div T)" by (simp add: cdiv_def Suc_le_eq)
  also have "\<dots> = (Suc j * T \<le> m + T - 1)" using T by (simp add: less_eq_div_iff_mult_less_eq)
  also have "\<dots> = (j * T < m)" using T by auto
  finally show ?thesis .
qed

lemma add64_nat: "int (a + b) < 2 ^ 63 \<Longrightarrow> add64 (int a) (int b) = int (a + b)"
proof -
  assume lt: "int (a + b) < 2 ^ 63"
  have "- (2 ^ 63) \<le> (0::int)" by simp
  also have "(0::int) \<le> int (a + b)" by (rule of_nat_0_le_iff)
  finally have "wrap64 (int (a + b)) = int (a + b)" using lt by (rule wrap64_id)
  then show ?thesis by (simp only: add64_def of_nat_add)
qed

lemma chunk_loop_exit:
  "\<not> i < int (length words) \<Longrightarrow> chunk_loop words sz stride i acc = Some (Inr acc)"
  by (subst chunk_loop.simps) simp

lemma chunk_loop_last:
  assumes "i < int (length words)"
    and "add64 i sz = e0" and "int (length words) \<le> e0"
    and "slice words i (int (length words)) = Inr ws"
  shows "chunk_loop words sz stride i acc = Some (Inr (acc @ [Join ws (str '' '')]))"
  using assms by (subst chunk_loop.simps) (auto simp: Let_def)

lemma chunk_loop_next:
  assumes "i < int (length words)"
    and "add64 i sz = e0" and "e0 < int (length words)"
    and "slice words i e0 = Inr ws"
    and "add64 i stride = i1"
  shows "chunk_loop words sz stride i acc =
           chunk_loop words sz stride i1 (acc @ [Join ws (str '' '')])"
  using assms by (subst chunk_loop.simps) (auto simp: Let_def)

lemma slice_clipped:
  assumes "i < length words" and "length words \<le> i + S"
  shows "slice words (int i) (int (length words)) = Inr (take S (drop i words))"
proof -
  have "take (length words - i) (drop i words) = take S (drop i words)" using assms by simp
  with assms show ?thesis by (simp add: slice_def nat_diff_distrib')
qed

lemma slice_full:
  assumes "i + S < length words"
  shows "slice words (int i) (int (i + S)) = Inr (take S (drop i words))"
  using assms by (simp add: slice_def)

lemma chunk_loop_closed:
  fixes S T :: nat
  assumes S: "0 < S" "int S \<le> MaxInt" and T: "0 < T" "int T \<le> MaxInt"
    and N: "2 * length words \<le> 2 ^ 63"
    and inv: "\<forall>j<k. j * T + S < length words"
  shows "chunk_loop words (int S) (int T) (int (k * T)) acc =
           Some (Inr (acc @ map (\<lambda>j. Join (window words S T j) (str '' '')) [k..<chunk_count (length words) S T]))"
  using inv
proof (induction "length words - k * T" arbitrary: k acc rule: less_induct)
  case less
  let ?N = "length words"
  let ?cnt = "chunk_count ?N S T"
  define i where "i = k * T"
  have kK: "k \<le> cdiv (?N - S) T"
  proof (rule ccontr)
    assume "\<not> k \<le> cdiv (?N - S) T"
    then have "cdiv (?N - S) T < k" by simp
    with less.prems have "cdiv (?N - S) T * T + S < ?N" by blast
    then have "cdiv (?N - S) T * T < ?N - S" by simp
    with cdiv_gt[OF T(1), of "cdiv (?N - S) T" "?N - S"] show False by simp
  qed
  show ?case
  proof (cases "i < ?N")
    case False
    then have "\<not> k < cdiv ?N T" using cdiv_gt[OF T(1), of k ?N] by (simp add: i_def)
    then have "?cnt \<le> k" by (simp add: chunk_count_def)
    then have "[k..<?cnt] = []" by simp
    moreover have "chunk_loop words (int S) (int T) (int i) acc = Some (Inr acc)"
      using False by (intro chunk_loop_exit) simp
    ultimately show ?thesis unfolding i_def by simp
  next
    case True
    then have k1: "k < cdiv ?N T" using cdiv_gt[OF T(1), of k ?N] by (simp add: i_def)
    have kcnt: "k < ?cnt" using k1 kK by (simp add: chunk_count_def)
    have small: "k = 0 \<or> (S < ?N \<and> T \<le> i)"
    proof (cases k)
      case 0 then show ?thesis by simp
    next
      case (Suc k')
      then have "0 * T + S < ?N" using less.prems by (metis zero_less_Suc)
      moreover have "T \<le> i" using Suc by (simp add: i_def)
      ultimately show ?thesis by simp
    qed
    have i0: "k = 0 \<Longrightarrow> i = 0" by (simp add: i_def)
    have bnd: "int i + int S < 2 ^ 63"
      using small True N S(2) i0 by (auto simp: MaxInt_def)
    have e0: "add64 (int i) (int S) = int (i + S)"
      using bnd by (intro add64_nat) (simp only: of_nat_add)
    have bndT: "int i + int T < 2 ^ 63"
      using small True N T(2) i0 by (auto simp: MaxInt_def)
    have "i + T = Suc k * T" by (simp add: i_def)
    moreover have "add64 (int i) (int T) = int (i + T)"
      using bndT by (intro add64_nat) (simp only: of_nat_add)
    ultimately have eT: "add64 (int i) (int T) = int (Suc k * T)" by simp
    have iN: "int i < int ?N" using True by (simp only: of_nat_less_iff)
    have w: "take S (drop i words) = window words S T k" by (simp add: window_def i_def)
    show ?thesis
    proof (cases "i + S \<ge> ?N")
      case brk: True
      have "\<not> k * T < ?N - S" using brk True by (simp add: i_def)
      then have "\<not> k < cdiv (?N - S) T" using cdiv_gt[OF T(1), of k "?N - S"] by simp
      with kK have "cdiv (?N - S) T = k" by simp
      with k1 have "?cnt = Suc k" by (simp add: chunk_count_def)
      then have "[k..<?cnt] = [k]" by simp
      moreover have "chunk_loop words (int S) (int T) (int i) acc =
          Some (Inr (acc @ [Join (window words S T k) (str '' '')]))"
        using chunk_loop_last[OF iN e0 _ slice_clipped[OF True brk]] brk
        by (simp only: w of_nat_le_iff)
      ultimately show ?thesis unfolding i_def by simp
    next
      case nobrk: False
      have inv': "\<forall>j<Suc k. j * T + S < ?N"
        using less.prems nobrk by (auto simp: less_Suc_eq i_def)
      have dec: "?N - Suc k * T < ?N - k * T" using True T(1) by (simp add: i_def)
      have ups: "[k..<?cnt] = k # [Suc k..<?cnt]" using kcnt by (simp add: upt_conv_Cons)
      have lt: "i + S < ?N" using nobrk by simp
      have "chunk_loop words (int S) (int T) (int i) acc =
          chunk_loop words (int S) (int T) (int (Suc k * T)) (acc @ [Join (window words S T k) (str '' '')])"
        using chunk_loop_next[OF iN e0 _ slice_full[OF lt] eT] lt
        by (simp only: w of_nat_less_iff)
      then show ?thesis
        using less.hyps[OF dec inv', of "acc @ [Join (window words S T k) (str '' '')]"]
        unfolding i_def ups by simp
    qed
  qed
qed

lemma ceil_div_alt:
  fixes a b :: int
  assumes "0 < b"
  shows "ceil_div a b = (a + b - 1) div b"
proof (cases "a mod b = 0")
  case True
  have "a = b * (a div b) + a mod b" by simp
  with True have "a + b - 1 = b * (a div b) + (b - 1)" by simp
  then have "(a + b - 1) div b = a div b"
    using assms by (intro int_div_pos_eq[where r = "b - 1"]) auto
  moreover have "(- a) div b = - (a div b)"
    using True assms by (simp add: zdiv_zminus1_eq_if)
  ultimately show ?thesis by (simp add: ceil_div_def)
next
  case False
  have r: "0 \<le> a mod b" "a mod b < b" using assms by simp_all
  have "a = b * (a div b) + a mod b" by simp
  then have "a + b - 1 = b * (a div b + 1) + (a mod b - 1)" by (simp add: algebra_simps)
  then have "(a + b - 1) div b = a div b + 1"
    using assms r False by (intro int_div_pos_eq[where r = "a mod b - 1"]) auto
  moreover have "(- a) div b = - (a div b) - 1"
    using False assms by (simp add: zdiv_zminus1_eq_if)
  ultimately show ?thesis by (simp add: ceil_div_def)
qed

lemma cdiv_ceil_div: "0 < b \<Longrightarrow> int (cdiv a b) = ceil_div (int a) (int b)"
proof -
  assume b: "0 < b"
  have "int (a + b - 1) = int a + int b - 1" using b by (simp add: of_nat_diff)
  then show ?thesis using b by (simp add: cdiv_def ceil_div_alt zdiv_int)
qed

lemma ChunkText_closed:
  assumes S: "0 < S" "S \<le> MaxInt" and T: "0 < T" "T \<le> MaxInt"
    and len: "int (length text) \<le> MaxInt"
  shows "ChunkText text S T =
           Some (Inr (map (\<lambda>k. Join (window (Fields text) (nat S) (nat T) k) (str '' ''))
                        [0..<chunk_count (length (Fields text)) (nat S) (nat T)]))"
proof (cases "Fields text = []")
  case True
  have "cdiv 0 (nat T) = 0" using T by (simp add: cdiv_def)
  then have "chunk_count 0 (nat S) (nat T) = 0" by (simp add: chunk_count_def)
  with True show ?thesis by (simp add: ChunkText_def Let_def)
next
  case False
  have "2 * length (Fields text) \<le> length text + 1" by (rule Fields_length)
  moreover have "length text + 1 \<le> 2 ^ 63" using len by (simp add: MaxInt_def)
  ultimately have N: "2 * length (Fields text) \<le> 2 ^ 63" by (rule le_trans)
  have "chunk_loop (Fields text) (int (nat S)) (int (nat T)) (int (0 * nat T)) [] =
          Some (Inr ([] @ map (\<lambda>k. Join (window (Fields text) (nat S) (nat T) k) (str '' ''))
                        [0..<chunk_count (length (Fields text)) (nat S) (nat T)]))"
    using S T N by (intro chunk_loop_closed) simp_all
  with False S T show ?thesis by (simp add: ChunkText_def Let_def)
qed

section \<open>Claims about ChunkText\<close>

lemma chunk_count_le: "0 < T \<Longrightarrow> k < chunk_count N S T \<Longrightarrow> k * T < N"
  by (simp add: chunk_count_def cdiv_gt)

lemma chunk_count_full: "0 < T \<Longrightarrow> Suc k < chunk_count N S T \<Longrightarrow> k * T + S < N"
proof -
  assume T: "0 < T" and "Suc k < chunk_count N S T"
  then have "k < cdiv (N - S) T" by (simp add: chunk_count_def)
  then have "k * T < N - S" using T by (simp add: cdiv_gt)
  then show ?thesis by simp
qed

lemma chunk_count_overlap:
  assumes "0 < T" "T \<le> S" "0 < N"
  shows "chunk_count N S T = cdiv (N - S) T + 1"
proof -
  let ?K = "cdiv (N - S) T"
  have "?K * T < N"
  proof (cases ?K)
    case 0
    then show ?thesis using assms by simp
  next
    case (Suc K')
    then have "K' < ?K" by simp
    then have "K' * T < N - S" using assms(1) by (simp add: cdiv_gt)
    then have "K' * T + T < N" using assms(2) by simp
    then show ?thesis using Suc by simp
  qed
  then have "?K < cdiv N T" using assms(1) by (simp add: cdiv_gt)
  then show ?thesis by (simp add: chunk_count_def)
qed

lemma window_words: "w \<in> set (window (Fields s) S T k) \<Longrightarrow> is_word w"
  unfolding window_def by (meson Fields_words in_set_dropD in_set_takeD)

lemma Fields_window: "Fields (Join (window (Fields s) S T k) (str '' '')) = window (Fields s) S T k"
  by (rule Fields_Join) (blast intro: window_words)

lemma length_window: "length (window words S T k) = min S (length words - k * T)"
  by (simp add: window_def min.commute)

lemma window_nth:
  assumes "k * T \<le> j" "j < k * T + S" "j < length words"
  shows "j - k * T < length (window words S T k) \<and> window words S T k ! (j - k * T) = words ! j"
  using assms by (auto simp: window_def)

lemma int_chunk_count:
  assumes "0 < S" "0 < T"
  shows "int (chunk_count N (nat S) (nat T)) =
           min (ceil_div (int N) T) (ceil_div (max 0 (int N - S)) T + 1)"
proof -
  have "int (N - nat S) = max 0 (int N - S)" using assms(1) by (simp add: of_nat_diff max_def)
  moreover have "int (cdiv N (nat T)) = ceil_div (int N) T"
    using assms cdiv_ceil_div[of "nat T" N] by simp
  moreover have "int (cdiv (N - nat S) (nat T)) = ceil_div (int (N - nat S)) T"
    using assms cdiv_ceil_div[of "nat T" "N - nat S"] by simp
  ultimately have "min (ceil_div (int N) T) (ceil_div (max 0 (int N - S)) T + 1) =
      min (int (cdiv N (nat T))) (int (cdiv (N - nat S) (nat T) + 1))" by (simp add: add.commute)
  also have "\<dots> = int (min (cdiv N (nat T)) (cdiv (N - nat S) (nat T) + 1))"
    by (simp only: of_nat_min)
  finally show ?thesis by (simp only: chunk_count_def)
qed

text \<open>
  C10. For every text and every chunk size \<open>S \<ge> 1\<close> and stride \<open>T \<ge> 1\<close> (values of Go's
  \<open>int\<close>; a Go string has at most \<open>MaxInt\<close> bytes), \<open>ChunkText\<close> terminates: the loop
  neither runs forever nor panics, and it returns a finite list of chunks.
\<close>

theorem ChunkText_terminates:
  assumes "1 \<le> S" "S \<le> MaxInt" "1 \<le> T" "T \<le> MaxInt" "int (length text) \<le> MaxInt"
  shows "\<exists>chunks. ChunkText text S T = Some (Inr chunks)"
  using assms ChunkText_closed[of S T "text"] by simp

theorem ChunkText_terminates_witness:
  "(1::int) \<le> 2 \<and> 2 \<le> MaxInt \<and> (1::int) \<le> 1 \<and> 1 \<le> MaxInt
     \<and> int (length (str ''a b c'')) \<le> MaxInt
     \<and> (\<exists>chunks. ChunkText (str ''a b c'') 2 1 = Some (Inr chunks))"
  using ChunkText_terminates[of 2 1 "str ''a b c''"] by (simp add: MaxInt_def str_def)

text \<open>
  C1 as stated fails: for the two words of \<open>a b\<close>, chunk size 1 and stride 2 the loop emits
  the one chunk \<open>a\<close> and leaves by its condition, while the formula gives 2.
\<close>

theorem ChunkText_count_counterexample:
  "ChunkText (str ''a b'') 1 2 = Some (Inr [str ''a''])
     \<and> length (Fields (str ''a b'')) = 2
     \<and> spec_chunk_count 2 1 2 = 2
     \<and> int (length [str ''a'']) \<noteq> spec_chunk_count (int (length (Fields (str ''a b'')))) 1 2"
  by (simp add: ChunkText_def Fields_def str_def isSpace_def chunk_loop.simps add64_def
      wrap64_def slice_def spec_chunk_count_def ceil_div_def)

text \<open>
  C1, amended. For a text of \<open>N\<close> words, chunk size \<open>S > 0\<close> and stride \<open>T > 0\<close>,
  \<open>ChunkText\<close> returns \<open>min (ceil (N / T), ceil (max (0, N - S) / T) + 1)\<close> chunks when
  \<open>N > 0\<close> and no chunk when \<open>N = 0\<close>; whenever \<open>T \<le> S\<close> this is the number
  \<open>ceil (max (0, N - S) / T) + 1\<close> of the specification.
\<close>

theorem ChunkText_count:
  assumes "0 < S" "S \<le> MaxInt" "0 < T" "T \<le> MaxInt" "int (length text) \<le> MaxInt"
  shows "\<exists>chunks. ChunkText text S T = Some (Inr chunks)
           \<and> int (length chunks) =
               (if length (Fields text) = 0 then 0
                else min (ceil_div (int (length (Fields text))) T)
                         (ceil_div (max 0 (int (length (Fields text)) - S)) T + 1))
           \<and> (T \<le> S \<longrightarrow>
                int (length chunks) = spec_chunk_count (int (length (Fields text))) S T)"
proof -
  define n where "n = length (Fields text)"
  define c where "c = chunk_count n (nat S) (nat T)"
  define chunks where
    "chunks = map (\<lambda>k. Join (window (Fields text) (nat S) (nat T) k) (str '' '')) [0..<c]"
  have res: "ChunkText text S T = Some (Inr chunks)"
    unfolding chunks_def c_def n_def using assms by (rule ChunkText_closed)
  have len: "length chunks = c" by (simp add: chunks_def)
  have ic: "int c = min (ceil_div (int n) T) (ceil_div (max 0 (int n - S)) T + 1)"
    unfolding c_def using assms(1,3) by (rule int_chunk_count)
  have zero: "n = 0 \<Longrightarrow> c = 0"
    using assms(3) by (simp add: c_def chunk_count_def cdiv_def)
  have one: "int (length chunks) =
      (if n = 0 then 0 else min (ceil_div (int n) T) (ceil_div (max 0 (int n - S)) T + 1))"
    using ic zero len by (cases "n = 0") simp_all
  have two: "T \<le> S \<longrightarrow> int (length chunks) = spec_chunk_count (int n) S T"
  proof
    assume TS: "T \<le> S"
    show "int (length chunks) = spec_chunk_count (int n) S T"
    proof (cases "n = 0")
      case True
      with zero len show ?thesis by (simp add: spec_chunk_count_def)
    next
      case False
      then have "c = cdiv (n - nat S) (nat T) + 1"
        unfolding c_def using assms(1,3) TS by (intro chunk_count_overlap) simp_all
      moreover have "int (cdiv (n - nat S) (nat T)) = ceil_div (int (n - nat S)) T"
        using assms(3) cdiv_ceil_div[of "nat T" "n - nat S"] by simp
      moreover have "int (n - nat S) = max 0 (int n - S)"
        using assms(1) by (simp add: of_nat_diff max_def)
      ultimately show ?thesis using False len by (simp add: spec_chunk_count_def)
    qed
  qed
  from res one two show ?thesis unfolding n_def by blast
qed

theorem ChunkText_count_witness:
  "(0::int) < 2 \<and> 2 \<le> MaxInt \<and> (0::int) < 1 \<and> 1 \<le> MaxInt
     \<and> int (length (str ''a b c'')) \<le> MaxInt \<and> (1::int) \<le> 2
     \<and> length (Fields (str ''a b c'')) = 3
     \<and> (\<exists>chunks. ChunkText (str ''a b c'') 2 1 = Some (Inr chunks)
           \<and> int (length chunks) = 2 \<and> spec_chunk_count 3 2 1 = 2)"
  using ChunkText_count[of 2 1 "str ''a b c''"]
  by (simp add: MaxInt_def str_def Fields_def isSpace_def spec_chunk_count_def ceil_div_def)

text \<open>
  C2. For every text with at least one word and every chunk size \<open>S > 0\<close>, a stride \<open>T\<close>
  that is at least the number of words gives exactly one chunk: all the words of the text
  (joined by single spaces) when there are at most \<open>S\<close> of them, otherwise the first \<open>S\<close>
  words.
\<close>

theorem ChunkText_single_chunk:
  assumes "0 < S" "S \<le> MaxInt" "T \<le> MaxInt" "int (length text) \<le> MaxInt"
    and "Fields text \<noteq> []" "int (length (Fields text)) \<le> T"
  shows "ChunkText text S T =
           Some (Inr [if int (length (Fields text)) \<le> S then Join (Fields text) (str '' '')
                      else Join (take (nat S) (Fields text)) (str '' '')])"
proof -
  define n where "n = length (Fields text)"
  have n: "0 < n" "n \<le> nat T" using assms(5,6) by (simp_all add: n_def)
  then have T: "0 < T" by simp
  have "0 < cdiv n (nat T)" using n T by (simp add: cdiv_gt)
  moreover have "\<not> 1 < cdiv n (nat T)" using n T by (simp add: cdiv_gt)
  ultimately have "cdiv n (nat T) = 1" by simp
  then have "chunk_count n (nat S) (nat T) = 1" by (simp add: chunk_count_def)
  then have "ChunkText text S T =
      Some (Inr (map (\<lambda>k. Join (window (Fields text) (nat S) (nat T) k) (str '' '')) [0..<1]))"
    using ChunkText_closed[OF assms(1,2) T assms(3,4)] by (simp only: n_def)
  moreover have "window (Fields text) (nat S) (nat T) 0 = take (nat S) (Fields text)"
    by (simp add: window_def)
  moreover have "int (length (Fields text)) \<le> S \<Longrightarrow> take (nat S) (Fields text) = Fields text"
    by simp
  ultimately show ?thesis by auto
qed

theorem ChunkText_single_chunk_witness:
  "(0::int) < 2 \<and> 2 \<le> MaxInt \<and> 500 \<le> MaxInt \<and> int (length (str ''a b c'')) \<le> MaxInt
     \<and> Fields (str ''a b c'') = [str ''a'', str ''b'', str ''c'']
     \<and> int (length (Fields (str ''a b c''))) \<le> 500
     \<and> ChunkText (str ''a b c'') 2 500 = Some (Inr [str ''a b''])
     \<and> ChunkText (str ''a b c'') 100 500 = Some (Inr [str ''a b c''])"
  using ChunkText_single_chunk[of 2 500 "str ''a b c''"]
    ChunkText_single_chunk[of 100 500 "str ''a b c''"]
  by (simp add: MaxInt_def str_def Fields_def isSpace_def)

text \<open>
  C6. For every text, chunk size \<open>S > 0\<close> and stride \<open>T > 0\<close>, every chunk that
  \<open>ChunkText\<close> returns except possibly the last has exactly \<open>S\<close> words, and the last chunk
  has between 1 and \<open>S\<close> words (the words of a chunk are its white-space separated fields).
\<close>

theorem ChunkText_chunk_sizes:
  assumes "0 < S" "S \<le> MaxInt" "0 < T" "T \<le> MaxInt" "int (length text) \<le> MaxInt"
  shows "\<exists>chunks. ChunkText text S T = Some (Inr chunks)
           \<and> (\<forall>k. Suc k < length chunks \<longrightarrow> int (length (Fields (chunks ! k))) = S)
           \<and> (chunks \<noteq> [] \<longrightarrow> 1 \<le> length (Fields (last chunks))
                 \<and> int (length (Fields (last chunks))) \<le> S)"
proof -
  define n where "n = length (Fields text)"
  define c where "c = chunk_count n (nat S) (nat T)"
  define chunks where
    "chunks = map (\<lambda>k. Join (window (Fields text) (nat S) (nat T) k) (str '' '')) [0..<c]"
  have res: "ChunkText text S T = Some (Inr chunks)"
    unfolding chunks_def c_def n_def using assms by (rule ChunkText_closed)
  have len: "length chunks = c" by (simp add: chunks_def)
  have T: "0 < nat T" using assms(3) by simp
  have fld: "Fields (chunks ! k) = window (Fields text) (nat S) (nat T) k" if "k < c" for k
    using that by (simp add: chunks_def Fields_window)
  have cnt: "length (Fields (chunks ! k)) = min (nat S) (n - k * nat T)" if "k < c" for k
    using fld[OF that] by (simp add: length_window n_def)
  have full: "int (length (Fields (chunks ! k))) = S" if "Suc k < length chunks" for k
  proof -
    from that have kc: "Suc k < c" by (simp add: len)
    then have "k * nat T + nat S < n" unfolding c_def using T by (intro chunk_count_full)
    then have "min (nat S) (n - k * nat T) = nat S" by simp
    with cnt[of k] kc assms(1) show ?thesis by simp
  qed
  have lst: "1 \<le> length (Fields (last chunks)) \<and> int (length (Fields (last chunks))) \<le> S"
    if "chunks \<noteq> []"
  proof -
    from that have "length chunks \<noteq> 0" by simp
    then have c: "0 < c" by (simp add: len)
    then have l: "last chunks = chunks ! (c - 1)" using that by (simp add: last_conv_nth len)
    have "c - 1 < chunk_count n (nat S) (nat T)" using c by (simp add: c_def)
    with T have "(c - 1) * nat T < n" by (rule chunk_count_le)
    then have pos: "1 \<le> n - (c - 1) * nat T" by simp
    have eq: "length (Fields (last chunks)) = min (nat S) (n - (c - 1) * nat T)"
      using cnt[of "c - 1"] c l by simp
    have "1 \<le> nat S" using assms(1) by simp
    with pos have "1 \<le> min (nat S) (n - (c - 1) * nat T)" by simp
    moreover have "int (min (nat S) (n - (c - 1) * nat T)) \<le> int (nat S)"
      by (simp only: of_nat_le_iff min.cobounded1)
    ultimately show ?thesis using assms(1) by (simp only: eq) simp
  qed
  from res full lst show ?thesis by blast
qed

theorem ChunkText_chunk_sizes_witness:
  "(0::int) < 2 \<and> 2 \<le> MaxInt \<and> (0::int) < 2 \<and> int (length (str ''a b c d e'')) \<le> MaxInt
     \<and> ChunkText (str ''a b c d e'') 2 2 = Some (Inr [str ''a b'', str ''c d'', str ''e''])
     \<and> (\<exists>chunks. ChunkText (str ''a b c d e'') 2 2 = Some (Inr chunks)
           \<and> (\<forall>k. Suc k < length chunks \<longrightarrow> int (length (Fields (chunks ! k))) = 2)
           \<and> (chunks \<noteq> [] \<longrightarrow> 1 \<le> length (Fields (last chunks))
                 \<and> int (length (Fields (last chunks))) \<le> 2))"
proof -
  have "ChunkText (str ''a b c d e'') 2 2 = Some (Inr [str ''a b'', str ''c d'', str ''e''])"
    by (simp add: ChunkText_def Fields_def str_def isSpace_def chunk_loop.simps add64_def
        wrap64_def slice_def)
  then show ?thesis
    using ChunkText_chunk_sizes[of 2 2 "str ''a b c d e''"]
    by (simp add: MaxInt_def str_def)
qed

text \<open>
  C7. For every text, chunk size \<open>S > 0\<close> and stride \<open>T > 0\<close> with \<open>T \<le> S\<close>, the chunks
  cover the word sequence: every word index \<open>j\<close> of the text lies in the window of some
  chunk \<open>k\<close> (which starts at word \<open>k * T\<close>), and that chunk holds the word at its place.
\<close>

theorem ChunkText_coverage:
  assumes "0 < S" "S \<le> MaxInt" "0 < T" "T \<le> MaxInt" "int (length text) \<le> MaxInt"
    and "T \<le> S"
  shows "\<exists>chunks. ChunkText text S T = Some (Inr chunks)
           \<and> (\<forall>j<length (Fields text). \<exists>k<length chunks.
                 k * nat T \<le> j \<and> j - k * nat T < length (Fields (chunks ! k))
                 \<and> Fields (chunks ! k) ! (j - k * nat T) = Fields text ! j)"
proof -
  define n where "n = length (Fields text)"
  define s where "s = nat S"
  define t where "t = nat T"
  define c where "c = chunk_count n s t"
  define chunks where
    "chunks = map (\<lambda>k. Join (window (Fields text) s t k) (str '' '')) [0..<c]"
  have res: "ChunkText text S T = Some (Inr chunks)"
    unfolding chunks_def c_def n_def s_def t_def using assms(1-5) by (rule ChunkText_closed)
  have len: "length chunks = c" by (simp add: chunks_def)
  have t: "0 < t" "t \<le> s" using assms(3,6) by (simp_all add: t_def s_def)
  have fld: "Fields (chunks ! k) = window (Fields text) s t k" if "k < c" for k
    using that by (simp add: chunks_def Fields_window)
  have cov: "\<exists>k<length chunks. k * t \<le> j \<and> j - k * t < length (Fields (chunks ! k))
                 \<and> Fields (chunks ! k) ! (j - k * t) = Fields text ! j"
    if j: "j < length (Fields text)" for j
  proof -
    from j have n0: "0 < n" unfolding n_def by (rule gr_implies_not_zero[THEN neq0_conv[THEN iffD1]])
    define K where "K = cdiv (n - s) t"
    have cK: "c = K + 1" unfolding c_def K_def using t n0 by (intro chunk_count_overlap)
    define k where "k = min (j div t) K"
    have kc: "k < c" by (simp add: k_def cK)
    have lo: "k * t \<le> j"
    proof -
      have "k * t \<le> (j div t) * t" by (simp add: k_def)
      also have "\<dots> \<le> j" by simp
      finally show ?thesis .
    qed
    have hi: "j < k * t + s"
    proof (cases "j div t \<le> K")
      case True
      then have "k = j div t" by (simp add: k_def)
      moreover have "j < (j div t) * t + t" using t(1) by (metis dividend_less_div_times add.commute)
      ultimately show ?thesis using t(2) by simp
    next
      case False
      then have "k = K" by (simp add: k_def)
      moreover have "\<not> K * t < n - s" using cdiv_gt[OF t(1), of K "n - s"] by (simp add: K_def)
      ultimately show ?thesis using j by (simp add: n_def)
    qed
    have "k < length chunks" using kc len by simp
    moreover note lo
    moreover have "j - k * t < length (Fields (chunks ! k))"
      using window_nth[OF lo hi j] fld[OF kc] by simp
    moreover have "Fields (chunks ! k) ! (j - k * t) = Fields text ! j"
      using window_nth[OF lo hi j] fld[OF kc] by simp
    ultimately show ?thesis by blast
  qed
  from res cov show ?thesis unfolding t_def by blast
qed

theorem ChunkText_coverage_witness:
  "(0::int) < 2 \<and> 2 \<le> MaxInt \<and> (0::int) < 1 \<and> 1 \<le> MaxInt
     \<and> int (length (str ''a b c'')) \<le> MaxInt \<and> (1::int) \<le> 2
     \<and> ChunkText (str ''a b c'') 2 1 = Some (Inr [str ''a b'', str ''b c''])
     \<and> (\<exists>chunks. ChunkText (str ''a b c'') 2 1 = Some (Inr chunks)
           \<and> (\<forall>j<length (Fields (str ''a b c'')). \<exists>k<length chunks.
                 k * nat 1 \<le> j \<and> j - k * nat 1 < length (Fields (chunks ! k))
                 \<and> Fields (chunks ! k) ! (j - k * nat 1) = Fields (str ''a b c'') ! j))"
proof -
  have "ChunkText (str ''a b c'') 2 1 = Some (Inr [str ''a b'', str ''b c''])"
    by (simp add: ChunkText_def Fields_def str_def isSpace_def chunk_loop.simps add64_def
        wrap64_def slice_def)
  then show ?thesis
    using ChunkText_coverage[of 2 1 "str ''a b c''"]
    by (simp add: MaxInt_def str_def)
qed

section \<open>The exchanges of each helper\<close>





lemma do_request_effect:
  "do_request E req s = (r, s1) \<Longrightarrow>
     trace s1 = trace s @ [(req, r)] \<and> logs s1 = logs s \<and> r = fst (http_do E req (world s))"
  by (auto simp: do_request_def split: prod.splits)

lemma getEmbedding_effect:
  assumes "getEmbedding E cfg text s = (res, s1)"
  shows "\<exists>r. trace s1 = trace s @
             [(Request (str ''POST'') (OllamaURL cfg @ str ''/api/embeddings'')
                 (EmbeddingRequest (DefaultModel cfg) text), r)]
           \<and> logs s1 = logs s
           \<and> r = fst (http_do E (Request (str ''POST'') (OllamaURL cfg @ str ''/api/embeddings'')
                 (EmbeddingRequest (DefaultModel cfg) text)) (world s))
           \<and> (case r of
                 Inl e \<Rightarrow> res = Inl (HttpPostError e)
               | Inr resp \<Rightarrow>
                   if StatusCode resp \<noteq> StatusOK
                   then res = Inl (OllamaStatus (StatusCode resp) (Body resp))
                   else (case decode_embedding E (Body resp) of
                           Inl e \<Rightarrow> res = Inl (DecodeResponse e)
                         | Inr v \<Rightarrow> res = Inr v))"
  using assms
  by (auto simp: getEmbedding_def http_Post_def split: prod.splits sum.splits if_splits
      dest!: do_request_effect)

lemma createCollection_effect:
  assumes "createCollection E cfg name s = (res, s1)"
  shows "\<exists>r. trace s1 = trace s @
             [(Request (str ''POST'') (ChromaURL cfg @ ChromaAPIBase cfg) (CreateRequest name), r)]
           \<and> logs s1 = logs s"
  using assms
  by (auto simp: createCollection_def http_Post_def Let_def split: prod.splits sum.splits if_splits
      dest!: do_request_effect)






section \<open>Claims about the pipelines\<close>

lemma since_append: "trace s' = trace s @ xs \<Longrightarrow> since s s' = xs"
  by (simp add: since_def)





text \<open>
  C5. \<open>getEmbedding\<close> makes one request. It returns an error exactly when the network call
  fails, the provider answers with a status other than 200 (the error then carries the
  status and the body of the response), or the body does not decode; otherwise it returns
  the decoded vector.
\<close>

theorem getEmbedding_errors:
  fixes E :: "('w, 'f) env"
  defines "req \<equiv> \<lambda>cfg text. Request (str ''POST'') (OllamaURL cfg @ str ''/api/embeddings'')
                     (EmbeddingRequest (DefaultModel cfg) text) :: 'f request"
  shows "\<exists>r. since s (snd (getEmbedding E cfg text s)) = [(req cfg text, r)]
           \<and> r = fst (http_do E (req cfg text) (world s))
           \<and> (isl (fst (getEmbedding E cfg text s)) \<longleftrightarrow>
                isl r \<or> StatusCode (projr r) \<noteq> StatusOK
                  \<or> isl (decode_embedding E (Body (projr r))))
           \<and> (\<forall>e. r = Inl e \<longrightarrow> fst (getEmbedding E cfg text s) = Inl (HttpPostError e))
           \<and> (\<forall>resp. r = Inr resp \<and> StatusCode resp \<noteq> StatusOK \<longrightarrow>
                fst (getEmbedding E cfg text s)
                  = Inl (OllamaStatus (StatusCode resp) (Body resp)))
           \<and> (\<forall>resp e. r = Inr resp \<and> StatusCode resp = StatusOK
                  \<and> decode_embedding E (Body resp) = Inl e \<longrightarrow>
                fst (getEmbedding E cfg text s) = Inl (DecodeResponse e))
           \<and> (\<forall>resp v. r = Inr resp \<and> StatusCode resp = StatusOK
                  \<and> decode_embedding E (Body resp) = Inr v \<longrightarrow>
                fst (getEmbedding E cfg text s) = Inr v)"
proof -
  obtain res s1 where ge: "getEmbedding E cfg text s = (res, s1)"
    by (cases "getEmbedding E cfg text s")
  from getEmbedding_effect[OF ge] obtain r where
    t: "trace s1 = trace s @ [(req cfg text, r)]" and
    r: "r = fst (http_do E (req cfg text) (world s))" and
    c: "case r of Inl e \<Rightarrow> res = Inl (HttpPostError e)
         | Inr resp \<Rightarrow> if StatusCode resp \<noteq> StatusOK
             then res = Inl (OllamaStatus (StatusCode resp) (Body resp))
             else (case decode_embedding E (Body resp) of
                     Inl e \<Rightarrow> res = Inl (DecodeResponse e) | Inr v \<Rightarrow> res = Inr v)"
    unfolding req_def by blast
  have "since s s1 = [(req cfg text, r)]" using t by (rule since_append)
  moreover have "isl res \<longleftrightarrow>
      isl r \<or> StatusCode (projr r) \<noteq> StatusOK \<or> isl (decode_embedding E (Body (projr r)))"
    using c by (cases r) (auto split: sum.splits if_splits)
  moreover have "\<forall>e. r = Inl e \<longrightarrow> res = Inl (HttpPostError e)" using c by auto
  moreover have "\<forall>resp. r = Inr resp \<and> StatusCode resp \<noteq> StatusOK \<longrightarrow>
      res = Inl (OllamaStatus (StatusCode resp) (Body resp))" using c by auto
  moreover have "\<forall>resp e. r = Inr resp \<and> StatusCode resp = StatusOK
      \<and> decode_embedding E (Body resp) = Inl e \<longrightarrow> res = Inl (DecodeResponse e)"
    using c by auto
  moreover have "\<forall>resp v. r = Inr resp \<and> StatusCode resp = StatusOK
      \<and> decode_embedding E (Body resp) = Inr v \<longrightarrow> res = Inr v"
    using c by auto
  ultimately show ?thesis using r by (simp add: ge)
qed

theorem getEmbedding_errors_witness:
  "fst (http_do demo_env
          (Request (str ''POST'') (OllamaURL default_config @ str ''/api/embeddings'')
             (EmbeddingRequest (DefaultModel default_config) (str ''b''))) (world demo_start))
     = Inr (Response 500 (str ''out of memory''))
   \<and> fst (getEmbedding demo_env default_config (str ''b'') demo_start)
       = Inl (OllamaStatus 500 (str ''out of memory''))
   \<and> fst (http_do demo_env
          (Request (str ''POST'') (OllamaURL default_config @ str ''/api/embeddings'')
             (EmbeddingRequest (DefaultModel default_config) (str ''a''))) (world demo_start))
     = Inr (Response 200 (str ''a''))
   \<and> decode_embedding demo_env (str ''a'') = Inr (str ''a'')
   \<and> fst (getEmbedding demo_env default_config (str ''a'') demo_start) = Inr (str ''a'')"
proof -
  let ?rb = "Request (str ''POST'') (OllamaURL default_config @ str ''/api/embeddings'')
             (EmbeddingRequest (DefaultModel default_config) (str ''b'')) :: nat request"
  let ?ra = "Request (str ''POST'') (OllamaURL default_config @ str ''/api/embeddings'')
             (EmbeddingRequest (DefaultModel default_config) (str ''a'')) :: nat request"
  have b: "fst (http_do demo_env ?rb (world demo_start)) = Inr (Response 500 (str ''out of memory''))"
    by (simp add: demo_env_def demo_http_def str_def)
  have a: "fst (http_do demo_env ?ra (world demo_start)) = Inr (Response 200 (str ''a''))"
    by (simp add: demo_env_def demo_http_def str_def)
  have d: "decode_embedding demo_env (str ''a'') = Inr (str ''a'')"
    by (simp add: demo_env_def)
  have "fst (getEmbedding demo_env default_config (str ''b'') demo_start)
       = Inl (OllamaStatus 500 (str ''out of memory''))"
    using getEmbedding_errors[of demo_start demo_env default_config "str ''b''"] b
    by (auto simp: StatusOK_def)
  moreover have "fst (getEmbedding demo_env default_config (str ''a'') demo_start) = Inr (str ''a'')"
    using getEmbedding_errors[of demo_start demo_env default_config "str ''a''"] a d
    by (auto simp: StatusOK_def)
  ultimately show ?thesis using a b d by blast
qed

lemma createCollection_result:
  fixes E :: "('w, 'f) env"
  assumes "createCollection E cfg name s = (res, s1)"
  shows "\<exists>c. trace s1 = trace s @
             [(Request (str ''POST'') (ChromaURL cfg @ ChromaAPIBase cfg) (CreateRequest name), c)]
           \<and> c = fst (http_do E (Request (str ''POST'') (ChromaURL cfg @ ChromaAPIBase cfg)
                                  (CreateRequest name)) (world s))
           \<and> res = (case c of
                 Inl e \<Rightarrow> Inl (PostFailed (ChromaURL cfg @ ChromaAPIBase cfg) e)
               | Inr resp \<Rightarrow>
                   if StatusCode resp \<noteq> StatusOK \<and> StatusCode resp \<noteq> StatusCreated
                   then Inl (CreateStatus (ChromaURL cfg @ ChromaAPIBase cfg)
                               (StatusCode resp) (Body resp))
                   else (case unmarshal_id E (Body resp) of
                           Inl e \<Rightarrow> Inl (DecodeCreateCollection e)
                         | Inr ident \<Rightarrow> if ident = [] then Inl EmptyCollectionID else Inr ident))"
  using assms
  by (auto simp: createCollection_def http_Post_def Let_def split: prod.splits sum.splits if_splits
      dest!: do_request_effect)

text \<open>
  C4. \<open>getOrCreateCollection\<close> first sends a GET for the collection. When the answer has
  status 200 and its body decodes, the decoded identifier is returned and nothing else is
  sent. When the GET fails in transport or has another status (404 among them), a create
  request is sent next, in the world the GET left, and its answer decides: status 200 or
  201 with a non-empty decoded identifier returns that identifier; any other status is an
  error that carries the status and the body; an empty identifier is an error.
\<close>

theorem getOrCreateCollection_cases:
  fixes E :: "('w, 'f) env"
  defines "greq \<equiv> \<lambda>cfg name. Request (str ''GET'')
                      (ChromaURL cfg @ ChromaAPIBase cfg @ str ''/'' @ name) NoBody :: 'f request"
    and "creq \<equiv> \<lambda>cfg name. Request (str ''POST'') (ChromaURL cfg @ ChromaAPIBase cfg)
                      (CreateRequest name) :: 'f request"
  shows "\<exists>g c. g = fst (http_do E (greq cfg name) (world s))
           \<and> c = fst (http_do E (creq cfg name) (snd (http_do E (greq cfg name) (world s))))
           \<and> (\<forall>resp ident. g = Inr resp \<and> StatusCode resp = StatusOK
                  \<and> decode_id E (Body resp) = Inr ident \<longrightarrow>
                fst (getOrCreateCollection E cfg name s) = Inr ident
                \<and> since s (snd (getOrCreateCollection E cfg name s)) = [(greq cfg name, g)])
           \<and> (isl g \<or> StatusCode (projr g) \<noteq> StatusOK \<longrightarrow>
                since s (snd (getOrCreateCollection E cfg name s))
                  = [(greq cfg name, g), (creq cfg name, c)]
                \<and> (\<forall>resp ident. c = Inr resp
                       \<and> (StatusCode resp = StatusOK \<or> StatusCode resp = StatusCreated)
                       \<and> unmarshal_id E (Body resp) = Inr ident \<and> ident \<noteq> [] \<longrightarrow>
                     fst (getOrCreateCollection E cfg name s) = Inr ident)
                \<and> (\<forall>resp. c = Inr resp
                       \<and> StatusCode resp \<noteq> StatusOK \<and> StatusCode resp \<noteq> StatusCreated \<longrightarrow>
                     fst (getOrCreateCollection E cfg name s)
                       = Inl (CreateStatus (ChromaURL cfg @ ChromaAPIBase cfg)
                                (StatusCode resp) (Body resp)))
                \<and> (\<forall>resp. c = Inr resp
                       \<and> (StatusCode resp = StatusOK \<or> StatusCode resp = StatusCreated)
                       \<and> unmarshal_id E (Body resp) = Inr [] \<longrightarrow>
                     fst (getOrCreateCollection E cfg name s) = Inl EmptyCollectionID)
                \<and> (\<forall>e. c = Inl e \<longrightarrow>
                     fst (getOrCreateCollection E cfg name s)
                       = Inl (PostFailed (ChromaURL cfg @ ChromaAPIBase cfg) e)))"
proof -
  define g where "g = fst (http_do E (greq cfg name) (world s))"
  define w1 where "w1 = snd (http_do E (greq cfg name) (world s))"
  define c where "c = fst (http_do E (creq cfg name) w1)"
  define s0 where "s0 = s\<lparr>world := w1, trace := trace s @ [(greq cfg name, g)]\<rparr>"
  have get: "http_Get E (ChromaURL cfg @ ChromaAPIBase cfg @ str ''/'' @ name) s = (g, s0)"
    by (simp add: http_Get_def do_request_def g_def w1_def s0_def greq_def split: prod.splits)
  have ok: "fst (getOrCreateCollection E cfg name s) = Inr ident
      \<and> since s (snd (getOrCreateCollection E cfg name s)) = [(greq cfg name, g)]"
    if "g = Inr resp" "StatusCode resp = StatusOK" "decode_id E (Body resp) = Inr ident"
    for resp ident
    using that get by (simp add: getOrCreateCollection_def Let_def since_def s0_def)
  have create: "getOrCreateCollection E cfg name s = createCollection E cfg name s0"
    if "isl g \<or> StatusCode (projr g) \<noteq> StatusOK"
    using that get by (cases g) (auto simp: getOrCreateCollection_def Let_def)
  obtain res s1 where cc: "createCollection E cfg name s0 = (res, s1)"
    by (cases "createCollection E cfg name s0")
  from createCollection_result[OF cc] have
    t1: "trace s1 = trace s @ [(greq cfg name, g), (creq cfg name, c)]" and
    r1: "res = (case c of
                 Inl e \<Rightarrow> Inl (PostFailed (ChromaURL cfg @ ChromaAPIBase cfg) e)
               | Inr resp \<Rightarrow>
                   if StatusCode resp \<noteq> StatusOK \<and> StatusCode resp \<noteq> StatusCreated
                   then Inl (CreateStatus (ChromaURL cfg @ ChromaAPIBase cfg)
                               (StatusCode resp) (Body resp))
                   else (case unmarshal_id E (Body resp) of
                           Inl e \<Rightarrow> Inl (DecodeCreateCollection e)
                         | Inr ident \<Rightarrow> if ident = [] then Inl EmptyCollectionID else Inr ident))"
    by (auto simp: c_def creq_def s0_def)
  have si: "since s s1 = [(greq cfg name, g), (creq cfg name, c)]"
    using t1 by (rule since_append)
  have made: "(isl g \<or> StatusCode (projr g) \<noteq> StatusOK) \<longrightarrow>
      since s (snd (getOrCreateCollection E cfg name s)) = [(greq cfg name, g), (creq cfg name, c)]
      \<and> fst (getOrCreateCollection E cfg name s) = res"
    using create cc si by simp
  have k1: "\<forall>resp ident. c = Inr resp
        \<and> (StatusCode resp = StatusOK \<or> StatusCode resp = StatusCreated)
        \<and> unmarshal_id E (Body resp) = Inr ident \<and> ident \<noteq> [] \<longrightarrow> res = Inr ident"
    using r1 by auto
  have k2: "\<forall>resp. c = Inr resp
        \<and> StatusCode resp \<noteq> StatusOK \<and> StatusCode resp \<noteq> StatusCreated \<longrightarrow>
        res = Inl (CreateStatus (ChromaURL cfg @ ChromaAPIBase cfg) (StatusCode resp) (Body resp))"
    using r1 by auto
  have k3: "\<forall>resp. c = Inr resp
        \<and> (StatusCode resp = StatusOK \<or> StatusCode resp = StatusCreated)
        \<and> unmarshal_id E (Body resp) = Inr [] \<longrightarrow> res = Inl EmptyCollectionID"
    using r1 by auto
  have k4: "\<forall>e. c = Inl e \<longrightarrow> res = Inl (PostFailed (ChromaURL cfg @ ChromaAPIBase cfg) e)"
    using r1 by auto
  have part1: "\<forall>resp ident. g = Inr resp \<and> StatusCode resp = StatusOK
      \<and> decode_id E (Body resp) = Inr ident \<longrightarrow>
      fst (getOrCreateCollection E cfg name s) = Inr ident
      \<and> since s (snd (getOrCreateCollection E cfg name s)) = [(greq cfg name, g)]"
    using ok by blast
  have part2: "isl g \<or> StatusCode (projr g) \<noteq> StatusOK \<longrightarrow>
      since s (snd (getOrCreateCollection E cfg name s)) = [(greq cfg name, g), (creq cfg name, c)]
      \<and> (\<forall>resp ident. c = Inr resp
             \<and> (StatusCode resp = StatusOK \<or> StatusCode resp = StatusCreated)
             \<and> unmarshal_id E (Body resp) = Inr ident \<and> ident \<noteq> [] \<longrightarrow>
           fst (getOrCreateCollection E cfg name s) = Inr ident)
      \<and> (\<forall>resp. c = Inr resp
             \<and> StatusCode resp \<noteq> StatusOK \<and> StatusCode resp \<noteq> StatusCreated \<longrightarrow>
           fst (getOrCreateCollection E cfg name s)
             = Inl (CreateStatus (ChromaURL cfg @ ChromaAPIBase cfg)
                      (StatusCode resp) (Body resp)))
      \<and> (\<forall>resp. c = Inr resp
             \<and> (StatusCode resp = StatusOK \<or> StatusCode resp = StatusCreated)
             \<and> unmarshal_id E (Body resp) = Inr [] \<longrightarrow>
           fst (getOrCreateCollection E cfg name s) = Inl EmptyCollectionID)
      \<and> (\<forall>e. c = Inl e \<longrightarrow>
           fst (getOrCreateCollection E cfg name s)
             = Inl (PostFailed (ChromaURL cfg @ ChromaAPIBase cfg) e))"
  proof
    assume "isl g \<or> StatusCode (projr g) \<noteq> StatusOK"
    with made have
      m: "since s (snd (getOrCreateCollection E cfg name s))
            = [(greq cfg name, g), (creq cfg name, c)]"
        "fst (getOrCreateCollection E cfg name s) = res"
      by blast+
    show "since s (snd (getOrCreateCollection E cfg name s)) = [(greq cfg name, g), (creq cfg name, c)]
      \<and> (\<forall>resp ident. c = Inr resp
             \<and> (StatusCode resp = StatusOK \<or> StatusCode resp = StatusCreated)
             \<and> unmarshal_id E (Body resp) = Inr ident \<and> ident \<noteq> [] \<longrightarrow>
           fst (getOrCreateCollection E cfg name s) = Inr ident)
      \<and> (\<forall>resp. c = Inr resp
             \<and> StatusCode resp \<noteq> StatusOK \<and> StatusCode resp \<noteq> StatusCreated \<longrightarrow>
           fst (getOrCreateCollection E cfg name s)
             = Inl (CreateStatus (ChromaURL cfg @ ChromaAPIBase cfg)
                      (StatusCode resp) (Body resp)))
      \<and> (\<forall>resp. c = Inr resp
             \<and> (StatusCode resp = StatusOK \<or> StatusCode resp = StatusCreated)
             \<and> unmarshal_id E (Body resp) = Inr [] \<longrightarrow>
           fst (getOrCreateCollection E cfg name s) = Inl EmptyCollectionID)
      \<and> (\<forall>e. c = Inl e \<longrightarrow>
           fst (getOrCreateCollection E cfg name s)
             = Inl (PostFailed (ChromaURL cfg @ ChromaAPIBase cfg) e))"
      unfolding m using k1 k2 k3 k4 by (intro conjI) (rule refl | assumption)+
  qed
  show ?thesis
    using part1 part2 unfolding g_def c_def w1_def
    by (intro exI conjI) (rule refl | assumption)+
qed

theorem getOrCreateCollection_cases_witness:
  "fst (getOrCreateCollection demo_env default_config (str ''documents'') demo_start)
     = Inr (str ''c0ffee'')
   \<and> map (Method \<circ> fst)
        (since demo_start (snd (getOrCreateCollection demo_env default_config (str ''documents'')
           demo_start))) = [str ''GET'']
   \<and> fst (getOrCreateCollection demo_env default_config (str ''ghost'') demo_start)
       = Inr (str ''c0ffee'')
   \<and> map (Method \<circ> fst)
        (since demo_start (snd (getOrCreateCollection demo_env default_config (str ''ghost'')
           demo_start))) = [str ''GET'', str ''POST'']
   \<and> map snd
        (since demo_start (snd (getOrCreateCollection demo_env default_config (str ''ghost'')
           demo_start)))
       = [Inr (Response 404 (str ''not found'')), Inr (Response 201 (str ''c0ffee''))]
   \<and> fst (getOrCreateCollection demo_env default_config (str ''locked'') demo_start)
       = Inl (CreateStatus (ChromaURL default_config @ ChromaAPIBase default_config) 403
                (str ''forbidden''))
   \<and> fst (getOrCreateCollection demo_env default_config (str ''void'') demo_start)
       = Inl EmptyCollectionID"
  using getOrCreateCollection_cases[of demo_env default_config "str ''documents''" demo_start]
    getOrCreateCollection_cases[of demo_env default_config "str ''ghost''" demo_start]
    getOrCreateCollection_cases[of demo_env default_config "str ''locked''" demo_start]
    getOrCreateCollection_cases[of demo_env default_config "str ''void''" demo_start]
  by (simp add: demo_env_def demo_http_def demo_url_def demo_start_def default_config_def str_def
      StatusOK_def StatusCreated_def)

text \<open>
  C8. When the request is a POST or a GET and the DELETE request can be built,
  \<open>HandleReset\<close> sends one DELETE for the collection. A 404 answer of the store is treated
  as success, as a 200 answer is: the handler replies 200 with \<open>reset successful\<close>. Every
  other status makes the handler reply 500 with the body of the store's answer, and a
  transport failure makes it reply 500 too.
\<close>

theorem HandleReset_not_found_is_success:
  fixes E :: "('w, 'f) env"
  defines "dreq \<equiv> \<lambda>cfg. Request (str ''DELETE'')
                     (ChromaURL cfg @ ChromaAPIBase cfg @ str ''/'' @ Collection cfg) NoBody
                     :: 'f request"
  assumes "method = str ''POST'' \<or> method = str ''GET''"
    and "new_request_error E (str ''DELETE'')
           (ChromaURL cfg @ ChromaAPIBase cfg @ str ''/'' @ Collection cfg) = None"
  shows "\<exists>d. d = fst (http_do E (dreq cfg) (world s))
           \<and> since s (snd (HandleReset E cfg method s)) = [(dreq cfg, d)]
           \<and> (\<forall>resp. d = Inr resp \<and> StatusCode resp = StatusNotFound \<longrightarrow>
                fst (HandleReset E cfg method s)
                  = Reply StatusOK (ResetSuccessful (Collection cfg)))
           \<and> (\<forall>resp. d = Inr resp \<and> StatusCode resp = StatusOK \<longrightarrow>
                fst (HandleReset E cfg method s)
                  = Reply StatusOK (ResetSuccessful (Collection cfg)))
           \<and> (\<forall>resp. d = Inr resp \<and> StatusCode resp \<noteq> StatusOK
                  \<and> StatusCode resp \<noteq> StatusNotFound \<longrightarrow>
                fst (HandleReset E cfg method s)
                  = Reply StatusInternalServerError (ChromaResetError (Body resp)))
           \<and> (\<forall>e. d = Inl e \<longrightarrow>
                fst (HandleReset E cfg method s)
                  = Reply StatusInternalServerError (FailedToDeleteCollection e))"
proof -
  let ?s1 = "log_Printf (LogResetting (Collection cfg)) s"
  obtain d s2 where dr: "do_request E (dreq cfg) ?s1 = (d, s2)"
    by (cases "do_request E (dreq cfg) ?s1")
  from do_request_effect[OF dr] have
    t: "trace s2 = trace s @ [(dreq cfg, d)]" and d: "d = fst (http_do E (dreq cfg) (world s))"
    by (simp_all add: log_Printf_def)
  have m: "\<not> (method \<noteq> str ''POST'' \<and> method \<noteq> str ''GET'')" using assms(2) by blast
  have run: "HandleReset E cfg method s =
      (case d of
         Inl e \<Rightarrow> (Reply StatusInternalServerError (FailedToDeleteCollection e), s2)
       | Inr resp \<Rightarrow>
           if StatusCode resp \<noteq> StatusOK \<and> StatusCode resp \<noteq> StatusNotFound
           then (Reply StatusInternalServerError (ChromaResetError (Body resp)), s2)
           else (Reply StatusOK (ResetSuccessful (Collection cfg)),
                 log_Printf LogResetSuccessful s2))"
    using m assms(3) dr unfolding HandleReset_def dreq_def by (auto simp: Let_def)
  have "trace (snd (HandleReset E cfg method s)) = trace s @ [(dreq cfg, d)]"
    using t by (cases d) (auto simp: run log_Printf_def)
  then have "since s (snd (HandleReset E cfg method s)) = [(dreq cfg, d)]"
    by (rule since_append)
  moreover have "\<forall>resp. d = Inr resp \<and> StatusCode resp = StatusNotFound \<longrightarrow>
      fst (HandleReset E cfg method s) = Reply StatusOK (ResetSuccessful (Collection cfg))"
    by (auto simp: run)
  moreover have "\<forall>resp. d = Inr resp \<and> StatusCode resp = StatusOK \<longrightarrow>
      fst (HandleReset E cfg method s) = Reply StatusOK (ResetSuccessful (Collection cfg))"
    by (auto simp: run)
  moreover have "\<forall>resp. d = Inr resp \<and> StatusCode resp \<noteq> StatusOK
      \<and> StatusCode resp \<noteq> StatusNotFound \<longrightarrow>
      fst (HandleReset E cfg method s)
        = Reply StatusInternalServerError (ChromaResetError (Body resp))"
    by (auto simp: run)
  moreover have "\<forall>e. d = Inl e \<longrightarrow>
      fst (HandleReset E cfg method s)
        = Reply StatusInternalServerError (FailedToDeleteCollection e)"
    by (auto simp: run)
  ultimately show ?thesis using d by blast
qed

theorem HandleReset_not_found_is_success_witness:
  "new_request_error demo_env (str ''DELETE'')
       (ChromaURL default_config @ ChromaAPIBase default_config @ str ''/'' @ str ''ghost'') = None
   \<and> fst (http_do demo_env
            (Request (str ''DELETE'')
               (ChromaURL default_config @ ChromaAPIBase default_config @ str ''/'' @ str ''ghost'')
               NoBody) (world demo_start))
       = Inr (Response 404 (str ''not found''))
   \<and> fst (HandleReset demo_env (default_config\<lparr>Collection := str ''ghost''\<rparr>) (str ''POST'')
            demo_start)
       = Reply 200 (ResetSuccessful (str ''ghost''))
   \<and> fst (HandleReset demo_env (default_config\<lparr>Collection := str ''locked''\<rparr>) (str ''GET'')
            demo_start)
       = Reply 500 (ChromaResetError (str ''forbidden''))"
  using HandleReset_not_found_is_success[of "str ''POST''" demo_env
      "default_config\<lparr>Collection := str ''ghost''\<rparr>" demo_start]
    HandleReset_not_found_is_success[of "str ''GET''" demo_env
      "default_config\<lparr>Collection := str ''locked''\<rparr>" demo_start]
  by (simp add: demo_env_def demo_http_def demo_url_def demo_start_def default_config_def str_def
      StatusOK_def StatusNotFound_def StatusInternalServerError_def)

lemma no_failure_without_payload:
  "Payload (fst x) = NoBody \<or> Payload (fst x) = CreateRequest n \<Longrightarrow>
     \<not> embedding_failed E x \<and> \<not> query_failed E x"
  by (cases x; cases "fst x") auto

lemma getOrCreateCollection_payloads:
  fixes E :: "('w, 'f) env"
  assumes "getOrCreateCollection E cfg name s = (res, s1)"
  shows "\<exists>xs. trace s1 = trace s @ xs
           \<and> (\<forall>x\<in>set xs. \<not> embedding_failed E' x \<and> \<not> query_failed E' x)"
proof -
  let ?g = "Request (str ''GET'') (ChromaURL cfg @ ChromaAPIBase cfg @ str ''/'' @ name) NoBody
              :: 'f request"
  let ?c = "Request (str ''POST'') (ChromaURL cfg @ ChromaAPIBase cfg) (CreateRequest name)
              :: 'f request"
  obtain r s0 where g: "http_Get E (ChromaURL cfg @ ChromaAPIBase cfg @ str ''/'' @ name) s = (r, s0)"
    by (cases "http_Get E (ChromaURL cfg @ ChromaAPIBase cfg @ str ''/'' @ name) s")
  have t0: "trace s0 = trace s @ [(?g, r)]"
    using do_request_effect[OF g[unfolded http_Get_def]] by simp
  have ng: "\<not> embedding_failed E' (?g, r) \<and> \<not> query_failed E' (?g, r)"
    by (rule no_failure_without_payload) simp
  consider (stop) "s1 = s0" | (create) "createCollection E cfg name s0 = (res, s1)"
    using assms g
    by (auto simp: getOrCreateCollection_def Let_def split: sum.splits if_splits)
  then show ?thesis
  proof cases
    case stop
    with t0 ng show ?thesis by (intro exI[of _ "[(?g, r)]"]) simp
  next
    case create
    then obtain r' where t1: "trace s1 = trace s0 @ [(?c, r')]"
      using createCollection_effect by blast
    have nc: "\<not> embedding_failed E' (?c, r') \<and> \<not> query_failed E' (?c, r')"
      by (rule no_failure_without_payload[where n = name]) simp
    from t0 t1 ng nc show ?thesis by (intro exI[of _ "[(?g, r), (?c, r')]"]) simp
  qed
qed

lemma queryChroma_effect:
  fixes E :: "('w, 'f) env"
  assumes "queryChroma E cfg embedding s = (res, s1)"
  shows "\<exists>xs. trace s1 = trace s @ xs
           \<and> (\<forall>x\<in>set xs. \<not> embedding_failed E x)
           \<and> ((\<exists>x\<in>set xs. query_failed E x) \<longrightarrow> isl res)"
proof -
  obtain g s0 where g: "getOrCreateCollection E cfg (Collection cfg) s = (g, s0)"
    by (cases "getOrCreateCollection E cfg (Collection cfg) s")
  from getOrCreateCollection_payloads[OF g, of E] obtain xs where
    xs: "trace s0 = trace s @ xs" "\<forall>x\<in>set xs. \<not> embedding_failed E x \<and> \<not> query_failed E x"
    by blast
  show ?thesis
  proof (cases g)
    case (Inl e)
    with assms g have "s1 = s0" by (auto simp: queryChroma_def)
    with xs show ?thesis by (intro exI[of _ xs]) auto
  next
    case (Inr colID)
    let ?req = "Request (str ''POST'')
        (ChromaURL cfg @ ChromaAPIBase cfg @ str ''/'' @ colID @ str ''/query'')
        (ChromaQueryRequest [embedding] 5)"
    obtain r s2 where p: "do_request E ?req s0 = (r, s2)"
      by (cases "do_request E ?req s0")
    have t2: "trace s2 = trace s0 @ [(?req, r)]" using do_request_effect[OF p] by simp
    have fin: "s1 = s2" and
      res: "res = (case r of Inl e \<Rightarrow> Inl (Upstream e)
                  | Inr resp \<Rightarrow> if StatusCode resp \<ge> 300
                       then Inl (QueryStatus (StatusCode resp) (Body resp))
                       else (case decode_query E (Body resp) of
                               Inl e \<Rightarrow> Inl (Upstream e) | Inr v \<Rightarrow> Inr v))"
      using assms g Inr p
      by (auto simp: queryChroma_def http_Post_def Let_def split: sum.splits if_splits)
    have q: "query_failed E (?req, r) \<longrightarrow> isl res"
      unfolding res by (cases r) (auto split: sum.splits)
    have ne: "\<not> embedding_failed E (?req, r)" by simp
    have "trace s1 = trace s @ (xs @ [(?req, r)])" using fin t2 xs(1) by simp
    moreover have "\<forall>x\<in>set (xs @ [(?req, r)]). \<not> embedding_failed E x" using xs(2) ne by auto
    moreover have "(\<exists>x\<in>set (xs @ [(?req, r)]). query_failed E x) \<longrightarrow> isl res"
      using xs(2) q by auto
    ultimately show ?thesis by blast
  qed
qed

text \<open>
  C9. For a GET with a non-empty query, \<open>HandleSearch\<close> passes a failure on to the caller:
  an error of \<open>getEmbedding\<close> or of \<open>queryChroma\<close> becomes a reply with status 500 that
  carries that error, and whenever an embedding call or a store query of the run fails,
  the reply has status 500 and holds no results. A reply with results is given only with
  status 200.
\<close>

theorem HandleSearch_propagates:
  fixes E :: "('w, 'f) env"
  assumes "query \<noteq> []"
  shows "(\<forall>e s1. getEmbedding E cfg query (log_Printf (LogSearching query) s) = (Inl e, s1) \<longrightarrow>
            HandleSearch E cfg (str ''GET'') query s
              = (Reply StatusInternalServerError (FailedToGetEmbedding e), s1))
       \<and> (\<forall>embedding s1 e s2.
            getEmbedding E cfg query (log_Printf (LogSearching query) s) = (Inr embedding, s1)
            \<and> queryChroma E cfg embedding s1 = (Inl e, s2) \<longrightarrow>
            HandleSearch E cfg (str ''GET'') query s
              = (Reply StatusInternalServerError (FailedToQueryChroma e), s2))
       \<and> ((\<exists>x\<in>set (since s (snd (HandleSearch E cfg (str ''GET'') query s))).
              embedding_failed E x \<or> query_failed E x) \<longrightarrow>
            reply_code (fst (HandleSearch E cfg (str ''GET'') query s))
              = StatusInternalServerError
            \<and> (\<forall>res. reply_body (fst (HandleSearch E cfg (str ''GET'') query s))
                  \<noteq> SearchResults res))
       \<and> (\<forall>res. reply_body (fst (HandleSearch E cfg (str ''GET'') query s)) = SearchResults res
            \<longrightarrow> reply_code (fst (HandleSearch E cfg (str ''GET'') query s)) = StatusOK)"
proof -
  let ?s0 = "log_Printf (LogSearching query) s"
  let ?req = "Request (str ''POST'') (OllamaURL cfg @ str ''/api/embeddings'')
                 (EmbeddingRequest (DefaultModel cfg) query) :: 'f request"
  obtain eres s1 where ge: "getEmbedding E cfg query ?s0 = (eres, s1)"
    by (cases "getEmbedding E cfg query ?s0")
  from getEmbedding_effect[OF ge] obtain r where
    t1: "trace s1 = trace s @ [(?req, r)]" and
    rr: "case r of Inl e \<Rightarrow> eres = Inl (HttpPostError e)
         | Inr resp \<Rightarrow> if StatusCode resp \<noteq> StatusOK
             then eres = Inl (OllamaStatus (StatusCode resp) (Body resp))
             else (case decode_embedding E (Body resp) of
                     Inl e \<Rightarrow> eres = Inl (DecodeResponse e) | Inr v \<Rightarrow> eres = Inr v)"
    by (auto simp: log_Printf_def)
  have ef: "embedding_failed E (?req, r) \<longrightarrow> isl eres"
    using rr by (cases r) (auto split: sum.splits if_splits)
  have nq: "\<not> query_failed E (?req, r)" by simp
  have a: "\<forall>e s1'. getEmbedding E cfg query ?s0 = (Inl e, s1') \<longrightarrow>
      HandleSearch E cfg (str ''GET'') query s
        = (Reply StatusInternalServerError (FailedToGetEmbedding e), s1')"
    using assms by (simp add: HandleSearch_def)
  have b: "\<forall>embedding s1' e s2.
      getEmbedding E cfg query ?s0 = (Inr embedding, s1')
      \<and> queryChroma E cfg embedding s1' = (Inl e, s2) \<longrightarrow>
      HandleSearch E cfg (str ''GET'') query s
        = (Reply StatusInternalServerError (FailedToQueryChroma e), s2)"
    using assms by (simp add: HandleSearch_def)
  have cd: "((\<exists>x\<in>set (since s (snd (HandleSearch E cfg (str ''GET'') query s))).
              embedding_failed E x \<or> query_failed E x) \<longrightarrow>
            reply_code (fst (HandleSearch E cfg (str ''GET'') query s))
              = StatusInternalServerError
            \<and> (\<forall>res. reply_body (fst (HandleSearch E cfg (str ''GET'') query s))
                  \<noteq> SearchResults res))
       \<and> (\<forall>res. reply_body (fst (HandleSearch E cfg (str ''GET'') query s)) = SearchResults res
            \<longrightarrow> reply_code (fst (HandleSearch E cfg (str ''GET'') query s)) = StatusOK)"
  proof (cases eres)
    case (Inl e)
    then have "HandleSearch E cfg (str ''GET'') query s
        = (Reply StatusInternalServerError (FailedToGetEmbedding e), s1)"
      using a ge by simp
    then show ?thesis by simp
  next
    case (Inr embedding)
    obtain qres s2 where qc: "queryChroma E cfg embedding s1 = (qres, s2)"
      by (cases "queryChroma E cfg embedding s1")
    from queryChroma_effect[OF qc] obtain ys where
      t2: "trace s2 = trace s1 @ ys" and
      ne: "\<forall>x\<in>set ys. \<not> embedding_failed E x" and
      qf: "(\<exists>x\<in>set ys. query_failed E x) \<longrightarrow> isl qres"
      by blast
    have "trace s2 = trace s @ ((?req, r) # ys)" using t1 t2 by simp
    then have si: "since s s2 = (?req, r) # ys" by (rule since_append)
    have nofail: "\<not> embedding_failed E (?req, r)" using ef Inr by auto
    show ?thesis
    proof (cases qres)
      case (Inl e)
      then have "HandleSearch E cfg (str ''GET'') query s
          = (Reply StatusInternalServerError (FailedToQueryChroma e), s2)"
        using b ge qc Inr by simp
      then show ?thesis by simp
    next
      case res: (Inr results)
      then have run: "HandleSearch E cfg (str ''GET'') query s
          = (Reply StatusOK (SearchResults results), s2)"
        using assms ge qc Inr by (simp add: HandleSearch_def)
      have "\<not> (\<exists>x\<in>set (since s s2). embedding_failed E x \<or> query_failed E x)"
        using si nofail nq ne qf res by auto
      then show ?thesis by (simp add: run)
    qed
  qed
  from a b cd show ?thesis by blast
qed

theorem HandleSearch_propagates_witness:
  "str ''a'' \<noteq> [] \<and> str ''b'' \<noteq> []
   \<and> HandleSearch demo_env default_config (str ''GET'') (str ''b'') demo_start
       = (Reply 500 (FailedToGetEmbedding (OllamaStatus 500 (str ''out of memory''))),
          snd (getEmbedding demo_env default_config (str ''b'')
                 (log_Printf (LogSearching (str ''b'')) demo_start)))
   \<and> fst (HandleSearch demo_env default_config (str ''GET'') (str ''a'') demo_start)
       = Reply 500 (FailedToQueryChroma (QueryStatus 503 (str ''unavailable'')))
   \<and> (\<exists>x\<in>set (since demo_start
                  (snd (HandleSearch demo_env default_config (str ''GET'') (str ''a'') demo_start))).
         query_failed demo_env x)"
proof -
  have na: "str ''a'' \<noteq> []" and nb: "str ''b'' \<noteq> []" by (simp_all add: str_def)
  have eb: "getEmbedding demo_env default_config (str ''b'')
        (log_Printf (LogSearching (str ''b'')) demo_start)
      = (Inl (OllamaStatus 500 (str ''out of memory'')),
         snd (getEmbedding demo_env default_config (str ''b'')
                (log_Printf (LogSearching (str ''b'')) demo_start)))"
    by (simp add: getEmbedding_def http_Post_def do_request_def demo_env_def demo_http_def
        log_Printf_def demo_start_def str_def StatusOK_def)
  have b: "HandleSearch demo_env default_config (str ''GET'') (str ''b'') demo_start
       = (Reply 500 (FailedToGetEmbedding (OllamaStatus 500 (str ''out of memory''))),
          snd (getEmbedding demo_env default_config (str ''b'')
                 (log_Printf (LogSearching (str ''b'')) demo_start)))"
    using HandleSearch_propagates[OF nb, of demo_env default_config demo_start] eb
    by (simp add: StatusInternalServerError_def)
  have qa: "\<exists>x\<in>set (since demo_start
                  (snd (HandleSearch demo_env default_config (str ''GET'') (str ''a'') demo_start))).
         query_failed demo_env x"
    by (simp add: HandleSearch_def getEmbedding_def queryChroma_def getOrCreateCollection_def
        http_Post_def http_Get_def do_request_def demo_env_def demo_http_def demo_url_def
        log_Printf_def demo_start_def default_config_def str_def StatusOK_def since_def Let_def)
  have a: "fst (HandleSearch demo_env default_config (str ''GET'') (str ''a'') demo_start)
       = Reply 500 (FailedToQueryChroma (QueryStatus 503 (str ''unavailable'')))"
    by (simp add: HandleSearch_def getEmbedding_def queryChroma_def getOrCreateCollection_def
        http_Post_def http_Get_def do_request_def demo_env_def demo_http_def demo_url_def
        log_Printf_def demo_start_def default_config_def str_def StatusOK_def Let_def
        StatusInternalServerError_def)
  from na nb b a qa show ?thesis by blast
qed

end
